theory Spec2Isabelle
  imports Main "HOL-Library.Multiset"
begin

section \<open>Remote entries, responses and the report model\<close>

text \<open>
  The three programs of the repository (\<^verbatim>\<open>sharepoint_folder_size.py\<close>,
  \<^verbatim>\<open>sharepoint_graph_api.py\<close> and \<^verbatim>\<open>sharepoint_folder_size_v2.py\<close>) walk a
  remote folder hierarchy through \<^verbatim>\<open>requests.get\<close>.  A JSON object of the Graph API
  is a Python dict; the model keeps the keys the programs read.  A key that may be
  absent is an \<open>option\<close>; \<^verbatim>\<open>'folder' in item\<close> and \<^verbatim>\<open>'file' in item\<close> are the two
  booleans.  A value that is present has the type the programs use it at, as the
  interfaces declare it: a name, an identifier and a URL are strings, a size is an
  integer (a Python \<^verbatim>\<open>int\<close>, 64 bits wide on the wire).  The calls of \<^verbatim>\<open>print\<close> and of
  \<^verbatim>\<open>format_size\<close> inside the loops only write to the terminal and are left out.
\<close>

record item =
  item_id :: "string option"
  item_name :: "string option"
  has_folder :: bool
  has_file :: bool
  item_size :: "int option"
  item_lastModifiedDateTime :: "string option"
  item_webUrl :: "string option"

text \<open>
  The body of a response is a JSON object too: the keys of a drive item read at top
  level (\<^verbatim>\<open>get_drive_item_by_path\<close> returns the body as the folder item), the list
  under \<^verbatim>\<open>'value'\<close> and the cursor under \<^verbatim>\<open>'@odata.nextLink'\<close>.  The keys that no
  program reads are not modelled one by one: \<open>has_other_keys\<close> says whether the dict
  holds any of them, which the truth value of the dict depends on.
\<close>

record body = item +
  page_value :: "item list option"
  nextLink :: "string option"
  has_other_keys :: bool

text \<open>
  \<^verbatim>\<open>requests.get(url)\<close> either raises (network failure, undecodable body) or returns
  a response with a status code and a body.  The backend is the function from the URL
  requested to that outcome.
\<close>

datatype response = Raises | Response nat body

type_synonym backend = "string \<Rightarrow> response"

record file_info =
  fi_name :: string
  fi_size :: int
  fi_last_modified :: string
  fi_path :: string

text \<open>
  The result dict of \<^verbatim>\<open>calculate_folder_size\<close>.  The key \<^verbatim>\<open>'id'\<close> exists only in
  \<^verbatim>\<open>sharepoint_folder_size.py\<close>; the other two programs leave \<open>node_id\<close> at \<open>None\<close>.
\<close>

datatype report_node = ReportNode
  (node_id: "string option")
  (path: string)
  (name: string)
  (total_size: int)
  (file_count: int)
  (folder_count: int)
  (files: "file_info list")
  (subfolders: "report_node list")

subsection \<open>Python helpers\<close>

definition startswith :: "string \<Rightarrow> string \<Rightarrow> bool" where
  "startswith s p = (take (length p) s = p)"

text \<open>\<^verbatim>\<open>not x\<close> for an optional string: \<^verbatim>\<open>None\<close> and the empty string are falsy.\<close>

definition falsy :: "string option \<Rightarrow> bool" where
  "falsy x = (case x of None \<Rightarrow> True | Some s \<Rightarrow> s = [])"

text \<open>\<^verbatim>\<open>d.get(key, default)\<close>\<close>

definition get_or :: "'a option \<Rightarrow> 'a \<Rightarrow> 'a" where
  "get_or x d = (case x of None \<Rightarrow> d | Some v \<Rightarrow> v)"

text \<open>The test both Graph programs apply to a folder name: the system folders.\<close>

definition system_folder :: "string \<Rightarrow> bool" where
  "system_folder n = (startswith n ''_'' \<or> n = ''Forms'')"

section \<open>\<^verbatim>\<open>sharepoint_folder_size.py\<close>: the walk by folder identifier\<close>

definition children_url :: "string \<Rightarrow> string \<Rightarrow> string \<Rightarrow> string" where
  "children_url site_id drive_id folder_id =
     ''https://graph.microsoft.com/v1.0/sites/'' @ site_id @ ''/drives/'' @ drive_id
       @ ''/items/'' @ folder_id @ ''/children''"

text \<open>
  The \<^verbatim>\<open>for item in items\<close> loop of \<^verbatim>\<open>get_folder_children\<close>, on the two accumulators.
  \<^verbatim>\<open>item['name']\<close> raises \<^verbatim>\<open>KeyError\<close> on a folder without a name; the boolean says
  whether the loop ran to its end.
\<close>

fun scan_items :: "item list \<Rightarrow> item list \<Rightarrow> item list \<Rightarrow> bool \<times> item list \<times> item list" where
  "scan_items [] file_items folder_items = (True, file_items, folder_items)"
| "scan_items (it # items) file_items folder_items =
     (if has_folder it then
        (case item_name it of
           None \<Rightarrow> (False, file_items, folder_items)
         | Some n \<Rightarrow>
             if \<not> (startswith n ''_'' \<or> n = ''Forms'')
             then scan_items items file_items (folder_items @ [it])
             else scan_items items file_items folder_items)
      else if has_file it then scan_items items (file_items @ [it]) folder_items
      else scan_items items file_items folder_items)"

text \<open>
  The \<^verbatim>\<open>while api_url\<close> loop.  The \<^verbatim>\<open>try\<close> around it returns the accumulators on any
  exception; a status other than 200 breaks out.  The loop runs for as long as the
  backend hands out cursors, so it is a partial function: \<open>None\<close> is "does not return".
\<close>

partial_function (option) get_folder_children_loop ::
  "backend \<Rightarrow> string option \<Rightarrow> item list \<Rightarrow> item list \<Rightarrow> (item list \<times> item list) option" where
  "get_folder_children_loop b api_url file_items folder_items =
     (if falsy api_url then Some (file_items, folder_items)
      else case b (the api_url) of
             Raises \<Rightarrow> Some (file_items, folder_items)
           | Response status_code data \<Rightarrow>
               if status_code = 200 then
                 (case scan_items (get_or (page_value data) []) file_items folder_items of
                    (completed, file_items', folder_items') \<Rightarrow>
                      if completed
                      then get_folder_children_loop b (nextLink data) file_items' folder_items'
                      else Some (file_items', folder_items'))
               else Some (file_items, folder_items))"

declare get_folder_children_loop.simps [code]

definition get_folder_children ::
  "backend \<Rightarrow> string \<Rightarrow> string \<Rightarrow> string \<Rightarrow> (item list \<times> item list) option" where
  "get_folder_children b site_id drive_id folder_id =
     get_folder_children_loop b (Some (children_url site_id drive_id folder_id)) [] []"

definition file_info_of :: "item \<Rightarrow> file_info" where
  "file_info_of file =
     \<lparr> fi_name = get_or (item_name file) [],
       fi_size = get_or (item_size file) 0,
       fi_last_modified = get_or (item_lastModifiedDateTime file) [],
       fi_path = get_or (item_webUrl file) [] \<rparr>"

text \<open>One round of the \<^verbatim>\<open>for file in files\<close> loop.\<close>

fun add_file :: "item \<Rightarrow> report_node \<Rightarrow> report_node" where
  "add_file file (ReportNode i p n ts fc dc fs ss) =
     ReportNode i p n (ts + fi_size (file_info_of file)) (fc + 1) dc
       (fs @ [file_info_of file]) ss"

text \<open>The three \<^verbatim>\<open>+=\<close> and the \<^verbatim>\<open>append\<close> on a subfolder's result.\<close>

fun add_subfolder :: "report_node \<Rightarrow> report_node \<Rightarrow> report_node" where
  "add_subfolder sub (ReportNode i p n ts fc dc fs ss) =
     ReportNode i p n (ts + total_size sub) (fc + file_count sub) (dc + folder_count sub)
       fs (ss @ [sub])"

fun set_folder_count :: "int \<Rightarrow> report_node \<Rightarrow> report_node" where
  "set_folder_count k (ReportNode i p n ts fc dc fs ss) = ReportNode i p n ts fc k fs ss"

text \<open>
  The \<^verbatim>\<open>for folder in folders\<close> loop, given the recursive call: a call that does not
  return keeps the loop from returning.
\<close>

fun process_subfolders ::
  "(item \<Rightarrow> report_node option) \<Rightarrow> item list \<Rightarrow> report_node \<Rightarrow> report_node option" where
  "process_subfolders rec [] result = Some result"
| "process_subfolders rec (folder # folder_items) result =
     (case rec folder of
        None \<Rightarrow> None
      | Some subfolder_result \<Rightarrow>
          process_subfolders rec folder_items (add_subfolder subfolder_result result))"

text \<open>
  \<^verbatim>\<open>calculate_folder_size\<close>.  The first argument bounds the depth of the recursion:
  with none left the call does not return.  Inside the \<^verbatim>\<open>try\<close> nothing raises:
  \<^verbatim>\<open>get_folder_children\<close> catches its own exceptions and the recursive call returns a
  dict, so the handler is never entered.
\<close>

fun calculate_folder_size ::
  "nat \<Rightarrow> backend \<Rightarrow> string \<Rightarrow> string \<Rightarrow> item \<Rightarrow> report_node option" where
  "calculate_folder_size 0 b site_id drive_id folder_item = None"
| "calculate_folder_size (Suc depth) b site_id drive_id folder_item =
     (let folder_name = get_or (item_name folder_item) ''Unknown'';
          folder_id = item_id folder_item;
          result = ReportNode folder_id (get_or (item_webUrl folder_item) []) folder_name
                     0 0 0 [] []
      in if falsy folder_id then Some result
         else case get_folder_children b site_id drive_id (the folder_id) of
                None \<Rightarrow> None
              | Some (file_items, folder_items) \<Rightarrow>
                  process_subfolders (calculate_folder_size depth b site_id drive_id) folder_items
                    (set_folder_count (int (length folder_items)) (fold add_file file_items result)))"

section \<open>\<^verbatim>\<open>sharepoint_graph_api.py\<close>: the walk by folder path\<close>

text \<open>\<^verbatim>\<open>s.split(sep)\<close> for a one-character separator, and \<^verbatim>\<open>sep.join(parts)\<close>.\<close>

fun split :: "char \<Rightarrow> string \<Rightarrow> string list" where
  "split sep [] = [[]]"
| "split sep (c # cs) =
     (if c = sep then [] # split sep cs
      else case split sep cs of [] \<Rightarrow> [[c]] | w # ws \<Rightarrow> (c # w) # ws)"

fun join :: "string \<Rightarrow> string list \<Rightarrow> string" where
  "join sep [] = []"
| "join sep [w] = w"
| "join sep (w # v # ws) = w @ sep @ join sep (v # ws)"

text \<open>\<^verbatim>\<open>os.path.basename\<close>: what follows the last slash.\<close>

definition basename :: "string \<Rightarrow> string" where
  "basename p = rev (takeWhile (\<lambda>c. c \<noteq> CHR ''/'') (rev p))"

text \<open>The removal of the site prefix, written three times in the programs.\<close>

definition strip_site_prefix :: "string \<Rightarrow> string" where
  "strip_site_prefix folder_path =
     (if startswith folder_path ''/sites/''
      then (let parts = split CHR ''/'' folder_path
            in if length parts > 3 then join ''/'' (drop 3 parts) else [])
      else folder_path)"

definition items_url :: "string \<Rightarrow> string \<Rightarrow> string \<Rightarrow> string" where
  "items_url site_id drive_id folder_path =
     (if folder_path \<noteq> [] \<and> folder_path \<notin> set [''/'', [], ''Shared Documents'']
      then ''https://graph.microsoft.com/v1.0/sites/'' @ site_id @ ''/drives/'' @ drive_id
             @ ''/root:/'' @ folder_path @ '':/children''
      else ''https://graph.microsoft.com/v1.0/sites/'' @ site_id @ ''/drives/'' @ drive_id
             @ ''/root/children'')"

text \<open>The \<^verbatim>\<open>for item in items\<close> loop of \<^verbatim>\<open>get_folder_items\<close>: no name is read here.\<close>

fun sort_items :: "item list \<Rightarrow> item list \<Rightarrow> item list \<Rightarrow> item list \<times> item list" where
  "sort_items [] file_items folder_items = (file_items, folder_items)"
| "sort_items (it # items) file_items folder_items =
     (if has_folder it then sort_items items file_items (folder_items @ [it])
      else if has_file it then sort_items items (file_items @ [it]) folder_items
      else sort_items items file_items folder_items)"

partial_function (option) get_folder_items_loop ::
  "backend \<Rightarrow> string option \<Rightarrow> item list \<Rightarrow> item list \<Rightarrow> (item list \<times> item list) option" where
  "get_folder_items_loop b api_url file_items folder_items =
     (if falsy api_url then Some (file_items, folder_items)
      else case b (the api_url) of
             Raises \<Rightarrow> Some (file_items, folder_items)
           | Response status_code data \<Rightarrow>
               if status_code = 200 then
                 (case sort_items (get_or (page_value data) []) file_items folder_items of
                    (file_items', folder_items') \<Rightarrow>
                      get_folder_items_loop b (nextLink data) file_items' folder_items')
               else Some (file_items, folder_items))"

declare get_folder_items_loop.simps [code]

definition get_folder_items ::
  "backend \<Rightarrow> string \<Rightarrow> string \<Rightarrow> string \<Rightarrow> (item list \<times> item list) option" where
  "get_folder_items b site_id drive_id folder_path =
     get_folder_items_loop b
       (Some (items_url site_id drive_id (strip_site_prefix folder_path))) [] []"

text \<open>
  The \<^verbatim>\<open>for folder in folders\<close> loop of this program: the system folders are skipped
  here, and the recursive call receives the folder's name as its path.
\<close>

fun process_subfolders_graph_api ::
  "(string \<Rightarrow> string option \<Rightarrow> report_node option) \<Rightarrow> item list \<Rightarrow> report_node
     \<Rightarrow> report_node option" where
  "process_subfolders_graph_api rec [] result = Some result"
| "process_subfolders_graph_api rec (folder # folder_items) result =
     (let folder_name = get_or (item_name folder) []
      in if startswith folder_name ''_'' \<or> folder_name = ''Forms''
         then process_subfolders_graph_api rec folder_items result
         else (let subfolder_path = folder_name
               in case rec subfolder_path (Some folder_name) of
                    None \<Rightarrow> None
                  | Some subfolder_result \<Rightarrow>
                      process_subfolders_graph_api rec folder_items
                        (add_subfolder subfolder_result
                           (set_folder_count (folder_count result + 1) result))))"

text \<open>\<^verbatim>\<open>folder_name or os.path.basename(folder_path) or 'Root'\<close>\<close>

definition display_name_of :: "string option \<Rightarrow> string \<Rightarrow> string" where
  "display_name_of folder_name folder_path =
     (if \<not> falsy folder_name then the folder_name
      else if basename folder_path \<noteq> [] then basename folder_path
      else ''Root'')"

fun calculate_folder_size_graph_api ::
  "nat \<Rightarrow> backend \<Rightarrow> string \<Rightarrow> string \<Rightarrow> string \<Rightarrow> string option \<Rightarrow> report_node option" where
  "calculate_folder_size_graph_api 0 b site_id drive_id folder_path folder_name = None"
| "calculate_folder_size_graph_api (Suc depth) b site_id drive_id folder_path folder_name =
     (let display_name = display_name_of folder_name folder_path;
          result = ReportNode None folder_path display_name 0 0 0 [] []
      in case get_folder_items b site_id drive_id folder_path of
           None \<Rightarrow> None
         | Some (file_items, folder_items) \<Rightarrow>
             process_subfolders_graph_api
               (calculate_folder_size_graph_api depth b site_id drive_id) folder_items
               (fold add_file file_items result))"

section \<open>\<^verbatim>\<open>sharepoint_folder_size_v2.py\<close>: the walk over the REST interface\<close>

text \<open>
  The REST interface names the keys differently and has no pages: a response carries
  the list under \<^verbatim>\<open>d.results\<close> (absent: the empty list).
\<close>

record sp_item =
  sp_Name :: "string option"
  sp_Length :: "int option"
  sp_TimeLastModified :: "string option"
  sp_ServerRelativeUrl :: "string option"

datatype sp_response = SpRaises | SpResponse nat "sp_item list"

type_synonym sp_backend = "string \<Rightarrow> sp_response"

text \<open>
  The exceptions of the models: a request that fails, a key that is missing, and a call
  beyond the bound of the interpreter on the depth of the call stack.
\<close>

datatype py_exception = RequestException | KeyError | RecursionError

text \<open>
  \<^verbatim>\<open>urllib.parse.quote\<close> with its default \<^verbatim>\<open>safe='/'\<close>, on the bytes of the string:
  letters, digits and \<^verbatim>\<open>_.-~/\<close> stay, every other byte becomes \<^verbatim>\<open>%XX\<close>.
\<close>

definition quote_safe :: "char \<Rightarrow> bool" where
  "quote_safe c =
     (c \<in> set ''ABCDEFGHIJKLMNOPQRSTUVWXYZabcdefghijklmnopqrstuvwxyz0123456789_.-~/'')"

definition hex_digit :: "nat \<Rightarrow> char" where
  "hex_digit k = ''0123456789ABCDEF'' ! (k mod 16)"

definition quote :: "string \<Rightarrow> string" where
  "quote s =
     concat (map (\<lambda>c. if quote_safe c then [c]
                       else [CHR ''%'', hex_digit (of_char c div 16), hex_digit (of_char c mod 16)]) s)"

definition files_url :: "string \<Rightarrow> string \<Rightarrow> string" where
  "files_url site_url folder_path =
     site_url @ ''/_api/web/GetFolderByServerRelativeUrl('' @ [CHR 0x27] @ quote folder_path
       @ [CHR 0x27] @ '')/Files''"

definition folders_url :: "string \<Rightarrow> string \<Rightarrow> string" where
  "folders_url site_url folder_path =
     site_url @ ''/_api/web/GetFolderByServerRelativeUrl('' @ [CHR 0x27] @ quote folder_path
       @ [CHR 0x27] @ '')/Folders''"

text \<open>
  The list comprehension that filters the system folders: \<^verbatim>\<open>f['Name']\<close> raises
  \<^verbatim>\<open>KeyError\<close> on an entry without a name.
\<close>

fun filter_system_folders :: "sp_item list \<Rightarrow> py_exception + sp_item list" where
  "filter_system_folders [] = Inr []"
| "filter_system_folders (f # fs) =
     (case sp_Name f of
        None \<Rightarrow> Inl KeyError
      | Some n \<Rightarrow>
          (case filter_system_folders fs of
             Inl e \<Rightarrow> Inl e
           | Inr rest \<Rightarrow>
               if \<not> startswith n ''_'' \<and> n \<noteq> ''Forms'' then Inr (f # rest) else Inr rest))"

text \<open>
  \<^verbatim>\<open>get_folder_items\<close> of this program has no \<^verbatim>\<open>try\<close>: a request that raises, and the
  \<^verbatim>\<open>KeyError\<close> of the filter, leave the function as exceptions.
\<close>

definition get_folder_items_v2 ::
  "sp_backend \<Rightarrow> string \<Rightarrow> string \<Rightarrow> py_exception + (sp_item list \<times> sp_item list)" where
  "get_folder_items_v2 b site_url folder_path =
     (case b (files_url site_url folder_path) of
        SpRaises \<Rightarrow> Inl RequestException
      | SpResponse files_status files_results \<Rightarrow>
          (let file_items = (if files_status = 200 then files_results else [])
           in case b (folders_url site_url folder_path) of
                SpRaises \<Rightarrow> Inl RequestException
              | SpResponse folders_status folders_results \<Rightarrow>
                  if folders_status = 200
                  then (case filter_system_folders folders_results of
                          Inl e \<Rightarrow> Inl e
                        | Inr folder_items \<Rightarrow> Inr (file_items, folder_items))
                  else Inr (file_items, [])))"

definition file_info_of_v2 :: "sp_item \<Rightarrow> file_info" where
  "file_info_of_v2 file =
     \<lparr> fi_name = get_or (sp_Name file) [],
       fi_size = get_or (sp_Length file) 0,
       fi_last_modified = get_or (sp_TimeLastModified file) [],
       fi_path = get_or (sp_ServerRelativeUrl file) [] \<rparr>"

fun add_file_v2 :: "sp_item \<Rightarrow> report_node \<Rightarrow> report_node" where
  "add_file_v2 file (ReportNode i p n ts fc dc fs ss) =
     ReportNode i p n (ts + fi_size (file_info_of_v2 file)) (fc + 1) dc
       (fs @ [file_info_of_v2 file]) ss"

fun process_subfolders_v2 ::
  "(string \<Rightarrow> report_node option) \<Rightarrow> sp_item list \<Rightarrow> report_node \<Rightarrow> report_node option" where
  "process_subfolders_v2 rec [] result = Some result"
| "process_subfolders_v2 rec (folder # folder_items) result =
     (let folder_path = get_or (sp_ServerRelativeUrl folder) []
      in case rec folder_path of
           None \<Rightarrow> None
         | Some subfolder_result \<Rightarrow>
             process_subfolders_v2 rec folder_items
               (add_subfolder subfolder_result
                  (set_folder_count (folder_count result + 1) result)))"

text \<open>
  \<^verbatim>\<open>calculate_folder_size\<close> of this program.  An exception out of \<^verbatim>\<open>get_folder_items\<close>
  is caught by the \<^verbatim>\<open>try\<close>, and \<^verbatim>\<open>result\<close> is returned as it is then: still empty.
\<close>

fun calculate_folder_size_v2 ::
  "nat \<Rightarrow> sp_backend \<Rightarrow> string \<Rightarrow> string \<Rightarrow> report_node option" where
  "calculate_folder_size_v2 0 b site_url folder_path = None"
| "calculate_folder_size_v2 (Suc depth) b site_url folder_path =
     (let result = ReportNode None folder_path
                     (if basename folder_path \<noteq> [] then basename folder_path else ''Root'')
                     0 0 0 [] []
      in case get_folder_items_v2 b site_url folder_path of
           Inl e \<Rightarrow> Some result
         | Inr (file_items, folder_items) \<Rightarrow>
             process_subfolders_v2 (calculate_folder_size_v2 depth b site_url) folder_items
               (fold add_file_v2 file_items result))"

text \<open>
  The entry points return \<^verbatim>\<open>Optional[Dict]\<close>.  In the model \<open>None\<close> is "does not
  return", \<open>Some None\<close> is Python's \<^verbatim>\<open>None\<close> (the caller prints the failure and exits
  with status 1) and \<open>Some (Some r)\<close> is the report.
\<close>

definition analyze_folder ::
  "nat \<Rightarrow> sp_backend \<Rightarrow> string \<Rightarrow> string \<Rightarrow> report_node option option" where
  "analyze_folder depth b site_url folder_path =
     map_option Some (calculate_folder_size_v2 depth b site_url folder_path)"

section \<open>\<^verbatim>\<open>sharepoint_graph_api.py\<close>: the walk by path under the bound of the call stack\<close>



section \<open>The entry points of the two Graph programs\<close>

text \<open>\<^verbatim>\<open>s.replace(old, '')\<close> and \<^verbatim>\<open>s.strip('/')\<close>.\<close>

function remove_all :: "string \<Rightarrow> string \<Rightarrow> string" where
  "remove_all old [] = []"
| "remove_all old (c # cs) =
     (if old \<noteq> [] \<and> startswith (c # cs) old
      then remove_all old (drop (length old) (c # cs))
      else c # remove_all old cs)"
  by pat_completeness auto
termination
  by (relation "measure (\<lambda>(old, s). length s)") auto

definition strip_slashes :: "string \<Rightarrow> string" where
  "strip_slashes s =
     rev (dropWhile (\<lambda>c. c = CHR ''/'') (rev (dropWhile (\<lambda>c. c = CHR ''/'') s)))"

text \<open>An f-string prints a missing identifier as \<^verbatim>\<open>None\<close>.\<close>

definition str_of :: "string option \<Rightarrow> string" where
  "str_of x = get_or x ''None''"

definition site_url_of :: "string \<Rightarrow> string" where
  "site_url_of site_url =
     (case split CHR ''/'' (remove_all ''https://'' site_url) of
        [] \<Rightarrow> ''https://graph.microsoft.com/v1.0/sites/:/''
      | hostname # rest \<Rightarrow>
          ''https://graph.microsoft.com/v1.0/sites/'' @ hostname @ '':/'' @ join ''/'' rest)"

definition drives_url :: "string option \<Rightarrow> string" where
  "drives_url site_id = ''https://graph.microsoft.com/v1.0/sites/'' @ str_of site_id @ ''/drives''"

text \<open>The choice of the document library among the drives listed.\<close>

definition pick_drive :: "item list \<Rightarrow> item option" where
  "pick_drive drives =
     (case find (\<lambda>drive. item_name drive \<in> set [Some ''Documents'', Some ''Shared Documents''])
             drives of
        Some drive \<Rightarrow> Some drive
      | None \<Rightarrow> (case drives of [] \<Rightarrow> None | drive # _ \<Rightarrow> Some drive))"

definition get_site_and_drive ::
  "backend \<Rightarrow> string \<Rightarrow> string option \<times> string option \<times> string option" where
  "get_site_and_drive b site_url =
     (case b (site_url_of site_url) of
        Raises \<Rightarrow> (None, None, None)
      | Response status_code site_data \<Rightarrow>
          if status_code = 200 then
            (let site_id = item_id site_data
             in case b (drives_url site_id) of
                  Raises \<Rightarrow> (None, None, None)
                | Response drives_status drives_data \<Rightarrow>
                    if drives_status = 200 then
                      (case pick_drive (get_or (page_value drives_data) []) of
                         Some drive \<Rightarrow> (site_id, item_id drive, item_name drive)
                       | None \<Rightarrow> (None, None, None))
                    else (None, None, None))
          else (None, None, None))"

definition item_url :: "string \<Rightarrow> string \<Rightarrow> string \<Rightarrow> string" where
  "item_url site_id drive_id item_path =
     (if item_path = [] \<or> item_path = ''/''
      then ''https://graph.microsoft.com/v1.0/sites/'' @ site_id @ ''/drives/'' @ drive_id @ ''/root''
      else ''https://graph.microsoft.com/v1.0/sites/'' @ site_id @ ''/drives/'' @ drive_id
             @ ''/root:/'' @ quote item_path)"

definition get_drive_item_by_path :: "backend \<Rightarrow> string \<Rightarrow> string \<Rightarrow> string \<Rightarrow> body option" where
  "get_drive_item_by_path b site_id drive_id item_path =
     (case b (item_url site_id drive_id item_path) of
        Raises \<Rightarrow> None
      | Response status_code data \<Rightarrow> if status_code = 200 then Some data else None)"

text \<open>
  \<^verbatim>\<open>not folder_item\<close> holds of \<^verbatim>\<open>None\<close> and of the dict without any key, read by the
  program or not.
\<close>

definition empty_dict :: "body \<Rightarrow> bool" where
  "empty_dict d =
     (item_id d = None \<and> item_name d = None \<and> \<not> has_folder d \<and> \<not> has_file d \<and>
      item_size d = None \<and> item_lastModifiedDateTime d = None \<and> item_webUrl d = None \<and>
      page_value d = None \<and> nextLink d = None \<and> \<not> has_other_keys d)"

definition clean_folder_path :: "string \<Rightarrow> string" where
  "clean_folder_path folder_path =
     (if folder_path \<noteq> [] then strip_slashes (strip_site_prefix folder_path) else folder_path)"

definition analyze_site ::
  "nat \<Rightarrow> backend \<Rightarrow> string \<Rightarrow> string \<Rightarrow> report_node option option" where
  "analyze_site depth b site_url folder_path =
     (case get_site_and_drive b site_url of
        (site_id, drive_id, drive_name) \<Rightarrow>
          if falsy site_id \<or> falsy drive_id then Some None
          else
            (let folder_path = clean_folder_path folder_path;
                 folder_item =
                   (if folder_path = [] \<or> folder_path \<in> set [[], ''Shared Documents'', ''Documents'']
                    then get_drive_item_by_path b (the site_id) (the drive_id) []
                    else get_drive_item_by_path b (the site_id) (the drive_id) folder_path)
             in case folder_item of
                  None \<Rightarrow> Some None
                | Some data \<Rightarrow>
                    if empty_dict data then Some None
                    else map_option Some
                           (calculate_folder_size depth b (the site_id) (the drive_id)
                              (item.truncate data))))"

definition get_site_id :: "backend \<Rightarrow> string \<Rightarrow> string option" where
  "get_site_id b site_url =
     (case b (site_url_of site_url) of
        Raises \<Rightarrow> None
      | Response status_code site_data \<Rightarrow> if status_code = 200 then item_id site_data else None)"

definition get_drive_id :: "backend \<Rightarrow> string \<Rightarrow> string option" where
  "get_drive_id b site_id =
     (case b (drives_url (Some site_id)) of
        Raises \<Rightarrow> None
      | Response status_code drives_data \<Rightarrow>
          if status_code = 200
          then (case pick_drive (get_or (page_value drives_data) []) of
                  Some drive \<Rightarrow> item_id drive
                | None \<Rightarrow> None)
          else None)"

definition analyze_site_graph_api ::
  "nat \<Rightarrow> backend \<Rightarrow> string \<Rightarrow> string \<Rightarrow> report_node option option" where
  "analyze_site_graph_api depth b site_url folder_path =
     (let site_id = get_site_id b site_url
      in if falsy site_id then Some None
         else (let drive_id = get_drive_id b (the site_id)
               in if falsy drive_id then Some None
                  else map_option Some
                         (calculate_folder_size_graph_api depth b (the site_id) (the drive_id)
                            (strip_site_prefix folder_path) None)))"

section \<open>The exporters of \<^verbatim>\<open>sharepoint_folder_size.py\<close>\<close>

text \<open>
  A row written by \<^verbatim>\<open>csv.writer\<close> is a list of cells.  \<^verbatim>\<open>format_size\<close> computes on
  floating-point numbers; the column it fills is kept, and the function is an argument.
\<close>

datatype cell = Str string | Num int

definition header_row :: "cell list" where
  "header_row = [Str ''Path'', Str ''Name'', Str ''Type'', Str ''Size (bytes)'',
                 Str ''Size (formatted)'', Str ''File Count'', Str ''Folder Count'']"

text \<open>\<^verbatim>\<open>write_folder_data\<close>: the writer is the list of rows written so far.\<close>

fun write_folder_data :: "(int \<Rightarrow> string) \<Rightarrow> report_node \<Rightarrow> cell list list \<Rightarrow> cell list list" where
  "write_folder_data format_size (ReportNode i p n ts fc dc fs ss) writer =
     fold (write_folder_data format_size) ss
       (fold (\<lambda>file w. w @ [[Str (fi_path file), Str (fi_name file), Str ''File'',
                               Num (fi_size file), Str (format_size (fi_size file)), Num 0, Num 0]])
          fs
          (writer @ [[Str p, Str n, Str ''Folder'', Num ts, Str (format_size ts), Num fc, Num dc]]))"

definition export_to_csv :: "(int \<Rightarrow> string) \<Rightarrow> report_node \<Rightarrow> cell list list" where
  "export_to_csv format_size result = write_folder_data format_size result [header_row]"

text \<open>
  \<^verbatim>\<open>export_to_json\<close> hands the result dict to \<^verbatim>\<open>json.dump\<close>.  The dict holds strings,
  integers, \<^verbatim>\<open>None\<close>, lists and dicts with string keys only, so \<^verbatim>\<open>default=str\<close> is never
  called, and the document written is this JSON value, keys in insertion order.
\<close>

datatype json = JNull | JInt int | JStr string | JList "json list" | JObject "(string \<times> json) list"

definition file_info_json :: "file_info \<Rightarrow> json" where
  "file_info_json f =
     JObject [(''name'', JStr (fi_name f)), (''size'', JInt (fi_size f)),
              (''last_modified'', JStr (fi_last_modified f)), (''path'', JStr (fi_path f))]"

fun export_to_json :: "report_node \<Rightarrow> json" where
  "export_to_json (ReportNode i p n ts fc dc fs ss) =
     JObject [(''id'', case i of None \<Rightarrow> JNull | Some s \<Rightarrow> JStr s),
              (''path'', JStr p), (''name'', JStr n),
              (''total_size'', JInt ts), (''file_count'', JInt fc), (''folder_count'', JInt dc),
              (''files'', JList (map file_info_json fs)),
              (''subfolders'', JList (map export_to_json ss))]"

section \<open>Notions used in the statements\<close>

text \<open>
  The aggregation law at a node and at every node below it: the three counters are the
  sums over the node's own files and over its subfolders.
\<close>

fun aggregation_law :: "report_node \<Rightarrow> bool" where
  "aggregation_law (ReportNode i p n ts fc dc fs ss) =
     (ts = sum_list (map fi_size fs) + sum_list (map total_size ss) \<and>
      fc = int (length fs) + sum_list (map file_count ss) \<and>
      dc = int (length ss) + sum_list (map folder_count ss) \<and>
      list_all aggregation_law ss)"

text \<open>The entries of a page: \<^verbatim>\<open>data.get('value', [])\<close>.\<close>

definition entries :: "body \<Rightarrow> item list" where
  "entries data = get_or (page_value data) []"

text \<open>
  One round of the \<^verbatim>\<open>while\<close> loop of \<^verbatim>\<open>get_folder_children\<close> seen from outside: the
  loop is over with these two lists (\<open>Inl\<close>), or it goes on at the next cursor (\<open>Inr\<close>).
\<close>

definition page_step ::
  "backend \<Rightarrow> string \<Rightarrow> item list \<Rightarrow> item list
     \<Rightarrow> (item list \<times> item list) + (string \<times> item list \<times> item list)" where
  "page_step b url fl ds =
     (case b url of
        Raises \<Rightarrow> Inl (fl, ds)
      | Response status_code data \<Rightarrow>
          if status_code = 200 then
            (case scan_items (entries data) fl ds of
               (completed, fl', ds') \<Rightarrow>
                 if completed \<and> \<not> falsy (nextLink data)
                 then Inr (the (nextLink data), fl', ds')
                 else Inl (fl', ds'))
          else Inl (fl, ds))"

text \<open>A listing call that fails: the request raises, or the status is not 200.\<close>

fun failed :: "response \<Rightarrow> bool" where
  "failed Raises = True"
| "failed (Response status_code data) = (status_code \<noteq> 200)"

text \<open>The result dict as \<^verbatim>\<open>calculate_folder_size\<close> creates it, before any child is added.\<close>

definition empty_report :: "item \<Rightarrow> report_node" where
  "empty_report folder_item =
     ReportNode (item_id folder_item) (get_or (item_webUrl folder_item) [])
       (get_or (item_name folder_item) ''Unknown'') 0 0 0 [] []"

text \<open>The two kinds of entry the fetchers keep.\<close>

definition file_entry :: "item \<Rightarrow> bool" where
  "file_entry it = (\<not> has_folder it \<and> has_file it)"

definition admitted_folder :: "item \<Rightarrow> bool" where
  "admitted_folder it =
     (has_folder it \<and> (case item_name it of None \<Rightarrow> False | Some n \<Rightarrow> \<not> system_folder n))"

text \<open>
  The listing that starts at \<open>url\<close> is served as exactly these pages, without failure:
  each page answers with status 200 and carries the cursor of the next one, the last
  page carries none.
\<close>

fun served_pages :: "backend \<Rightarrow> string \<Rightarrow> body list \<Rightarrow> bool" where
  "served_pages b url [] = False"
| "served_pages b url [p] = (b url = Response 200 p \<and> falsy (nextLink p))"
| "served_pages b url (p # q # ps) =
     (b url = Response 200 p \<and> \<not> falsy (nextLink p) \<and>
      served_pages b (the (nextLink p)) (q # ps))"

text \<open>An entry that carries the name of a system folder, and a folder entry that does.\<close>

definition system_named :: "item \<Rightarrow> bool" where
  "system_named it = (case item_name it of None \<Rightarrow> False | Some n \<Rightarrow> system_folder n)"

definition system_entry :: "item \<Rightarrow> bool" where
  "system_entry it = (has_folder it \<and> system_named it)"

text \<open>The backend with the system folders taken out of every page it serves.\<close>

definition hide_system_folders :: "backend \<Rightarrow> backend" where
  "hide_system_folders b url =
     (case b url of
        Raises \<Rightarrow> Raises
      | Response status_code data \<Rightarrow>
          Response status_code
            (data\<lparr>page_value :=
                    map_option (filter (\<lambda>it. \<not> system_entry it)) (page_value data)\<rparr>))"

text \<open>No node below the root of the tree carries the name of a system folder.\<close>

fun no_system_folders :: "report_node \<Rightarrow> bool" where
  "no_system_folders (ReportNode i p n ts fc dc fs ss) =
     list_all (\<lambda>s. \<not> system_folder (name s) \<and> no_system_folders s) ss"

text \<open>\<^verbatim>\<open>folder.get('name', '')\<close>\<close>

definition name_of :: "item \<Rightarrow> string" where
  "name_of folder = get_or (item_name folder) []"

text \<open>
  The tabular form in the words of the specification: the row of a folder carries its
  own totals, the row of a file carries its size and 0 in both count columns, and the
  traversal is pre-order: the folder's row, the rows of its files, then each subfolder
  in order.
\<close>

definition folder_row :: "(int \<Rightarrow> string) \<Rightarrow> report_node \<Rightarrow> cell list" where
  "folder_row format_size n =
     [Str (path n), Str (name n), Str ''Folder'', Num (total_size n),
      Str (format_size (total_size n)), Num (file_count n), Num (folder_count n)]"

definition file_row :: "(int \<Rightarrow> string) \<Rightarrow> file_info \<Rightarrow> cell list" where
  "file_row format_size f =
     [Str (fi_path f), Str (fi_name f), Str ''File'', Num (fi_size f),
      Str (format_size (fi_size f)), Num 0, Num 0]"

fun tabular_flatten :: "(int \<Rightarrow> string) \<Rightarrow> report_node \<Rightarrow> cell list list" where
  "tabular_flatten format_size (ReportNode i p n ts fc dc fs ss) =
     folder_row format_size (ReportNode i p n ts fc dc fs ss) # map (file_row format_size) fs
       @ concat (map (tabular_flatten format_size) ss)"

text \<open>
  Modelled from the spec: the deserializer of the structured export, which the
  repository does not contain (it only writes the document).  It reads the nested
  document back by key: a folder object needs its eight keys with values of the right
  kind, a file object its four.
\<close>

definition string_field :: "(string \<times> json) list \<Rightarrow> string \<Rightarrow> string option" where
  "string_field kvs k = (case map_of kvs k of Some (JStr s) \<Rightarrow> Some s | _ \<Rightarrow> None)"

definition int_field :: "(string \<times> json) list \<Rightarrow> string \<Rightarrow> int option" where
  "int_field kvs k = (case map_of kvs k of Some (JInt n) \<Rightarrow> Some n | _ \<Rightarrow> None)"

definition list_field :: "(string \<times> json) list \<Rightarrow> string \<Rightarrow> json list option" where
  "list_field kvs k = (case map_of kvs k of Some (JList xs) \<Rightarrow> Some xs | _ \<Rightarrow> None)"

definition optional_string_field :: "(string \<times> json) list \<Rightarrow> string \<Rightarrow> string option option" where
  "optional_string_field kvs k =
     (case map_of kvs k of Some JNull \<Rightarrow> Some None | Some (JStr s) \<Rightarrow> Some (Some s) | _ \<Rightarrow> None)"

definition deserialize_file :: "json \<Rightarrow> file_info option" where
  "deserialize_file j =
     (case j of
        JObject kvs \<Rightarrow>
          (case (string_field kvs ''name'', int_field kvs ''size'',
                 string_field kvs ''last_modified'', string_field kvs ''path'') of
             (Some n, Some sz, Some m, Some p) \<Rightarrow>
               Some \<lparr> fi_name = n, fi_size = sz, fi_last_modified = m, fi_path = p \<rparr>
           | _ \<Rightarrow> None)
      | _ \<Rightarrow> None)"

function deserialize :: "json \<Rightarrow> report_node option" where
  "deserialize (JObject kvs) =
     (case list_field kvs ''subfolders'' of
        None \<Rightarrow> None
      | Some sub_docs \<Rightarrow>
          (case (optional_string_field kvs ''id'', string_field kvs ''path'',
                 string_field kvs ''name'', int_field kvs ''total_size'',
                 int_field kvs ''file_count'', int_field kvs ''folder_count'',
                 map_option (map deserialize_file) (list_field kvs ''files''),
                 those (map deserialize sub_docs)) of
             (Some i, Some p, Some n, Some ts, Some fc, Some dc, Some fs, Some ss) \<Rightarrow>
               map_option (\<lambda>fs. ReportNode i p n ts fc dc fs ss) (those fs)
           | _ \<Rightarrow> None))"
| "deserialize JNull = None"
| "deserialize (JInt n) = None"
| "deserialize (JStr s) = None"
| "deserialize (JList xs) = None"
  by pat_completeness auto
termination
proof (relation "measure size", goal_cases)
  case 1
  show ?case by simp
next
  case (2 kvs sub_docs x)
  from 2(1) have "(''subfolders'', JList sub_docs) \<in> set kvs"
    by (auto simp: list_field_def dest: map_of_SomeD split: option.splits json.splits)
  then have "size (JList sub_docs) < size (JObject kvs)"
    by (induction kvs) auto
  moreover from 2(2) have "size x < size (JList sub_docs)"
    by (induction sub_docs) auto
  ultimately show ?case by simp
qed

text \<open>Every size the backend reports is non-negative.\<close>

definition sizes_nonneg :: "backend \<Rightarrow> bool" where
  "sizes_nonneg b =
     (\<forall>url status_code data. b url = Response status_code data \<longrightarrow>
        (\<forall>it \<in> set (entries data). 0 \<le> get_or (item_size it) 0))"

text \<open>
  The cursors handed out from \<open>api_url\<close> come to an end: there is none, or the request
  fails, or the page requested leads to a cursor from which they end.
\<close>

inductive listing_ends :: "backend \<Rightarrow> string option \<Rightarrow> bool" for b :: backend where
  no_cursor: "falsy api_url \<Longrightarrow> listing_ends b api_url"
| raises: "\<not> falsy api_url \<Longrightarrow> b (the api_url) = Raises \<Longrightarrow> listing_ends b api_url"
| status: "\<not> falsy api_url \<Longrightarrow> b (the api_url) = Response status_code data \<Longrightarrow>
           status_code \<noteq> 200 \<Longrightarrow> listing_ends b api_url"
| next_page: "\<not> falsy api_url \<Longrightarrow> b (the api_url) = Response 200 data \<Longrightarrow>
           listing_ends b (nextLink data) \<Longrightarrow> listing_ends b api_url"

text \<open>
  The hierarchy that the backend serves below a folder is finite: the listing of the
  folder ends, and so does the hierarchy below every folder the listing returns.
\<close>

inductive walk_ends :: "backend \<Rightarrow> string \<Rightarrow> string \<Rightarrow> item \<Rightarrow> bool"
  for b :: backend and site_id :: string and drive_id :: string where
  no_id: "falsy (item_id folder_item) \<Longrightarrow> walk_ends b site_id drive_id folder_item"
| folder: "\<not> falsy (item_id folder_item) \<Longrightarrow>
           listing_ends b (Some (children_url site_id drive_id (the (item_id folder_item)))) \<Longrightarrow>
           (\<forall>fl ds. get_folder_children b site_id drive_id (the (item_id folder_item)) = Some (fl, ds)
              \<longrightarrow> (\<forall>d \<in> set ds. walk_ends b site_id drive_id d)) \<Longrightarrow>
           walk_ends b site_id drive_id folder_item"




text \<open>\<^verbatim>\<open>folder.get('ServerRelativeUrl', '')\<close>\<close>

definition url_of :: "sp_item \<Rightarrow> string" where
  "url_of folder = get_or (sp_ServerRelativeUrl folder) []"

inductive walk_ends_v2 :: "sp_backend \<Rightarrow> string \<Rightarrow> string \<Rightarrow> bool"
  for b :: sp_backend and site_url :: string where
  folder: "(\<forall>fl ds. get_folder_items_v2 b site_url folder_path = Inr (fl, ds)
              \<longrightarrow> (\<forall>d \<in> set ds. walk_ends_v2 b site_url (url_of d))) \<Longrightarrow>
           walk_ends_v2 b site_url folder_path"

section \<open>Example backends\<close>

definition mk_file :: "string \<Rightarrow> int \<Rightarrow> item" where
  "mk_file n sz = \<lparr> item_id = Some (''id-'' @ n), item_name = Some n, has_folder = False,
       has_file = True, item_size = Some sz, item_lastModifiedDateTime = Some ''2024-01-01'',
       item_webUrl = Some (''https://x/'' @ n) \<rparr>"

definition mk_folder :: "string \<Rightarrow> string \<Rightarrow> item" where
  "mk_folder i n = \<lparr> item_id = Some i, item_name = Some n, has_folder = True,
       has_file = False, item_size = None, item_lastModifiedDateTime = None,
       item_webUrl = Some (''https://x/'' @ n) \<rparr>"

definition mk_page :: "item list \<Rightarrow> string option \<Rightarrow> body" where
  "mk_page items next = \<lparr> item_id = None, item_name = None, has_folder = False,
       has_file = False, item_size = None, item_lastModifiedDateTime = None,
       item_webUrl = None, page_value = Some items, nextLink = next,
       has_other_keys = False \<rparr>"

text \<open>A backend given by a table of URLs; every other URL answers 404.\<close>

definition serve :: "(string \<times> response) list \<Rightarrow> backend" where
  "serve table url =
     (case map_of table url of Some r \<Rightarrow> r | None \<Rightarrow> Response 404 (mk_page [] None))"

text \<open>
  Folder \<open>A\<close> (two pages) holds \<open>f1\<close>, \<open>B\<close>, the system folders \<open>_hidden\<close> and \<open>Forms\<close>
  and the file \<open>_notes\<close>; \<open>B\<close> holds \<open>f2\<close> and \<open>C\<close>; \<open>C\<close> holds \<open>f3\<close>.
\<close>

definition demo :: backend where
  "demo = serve
     [(children_url ''s'' ''d'' ''r'',
         Response 200 (mk_page [mk_file ''f1'' 100, mk_folder ''b'' ''B''] (Some ''https://next/r2''))),
      (''https://next/r2'',
         Response 200 (mk_page [mk_folder ''h'' ''_hidden'', mk_folder ''fo'' ''Forms'',
                                mk_file ''_notes'' 5] None)),
      (children_url ''s'' ''d'' ''b'',
         Response 200 (mk_page [mk_file ''f2'' 200, mk_folder ''c'' ''C''] None)),
      (children_url ''s'' ''d'' ''c'', Response 200 (mk_page [mk_file ''f3'' 30] None)),
      (children_url ''s'' ''d'' ''h'', Response 200 (mk_page [mk_file ''f9'' 9999] None)),
      (children_url ''s'' ''d'' ''fo'', Response 200 (mk_page [mk_file ''f8'' 1] None))]"

definition demo_report :: report_node where
  "demo_report =
     ReportNode (Some ''r'') ''https://x/A'' ''A'' 335 4 2
       [\<lparr>fi_name = ''f1'', fi_size = 100, fi_last_modified = ''2024-01-01'',
          fi_path = ''https://x/f1''\<rparr>,
        \<lparr>fi_name = ''_notes'', fi_size = 5, fi_last_modified = ''2024-01-01'',
          fi_path = ''https://x/_notes''\<rparr>]
       [ReportNode (Some ''b'') ''https://x/B'' ''B'' 230 2 1
          [\<lparr>fi_name = ''f2'', fi_size = 200, fi_last_modified = ''2024-01-01'',
             fi_path = ''https://x/f2''\<rparr>]
          [ReportNode (Some ''c'') ''https://x/C'' ''C'' 30 1 0
             [\<lparr>fi_name = ''f3'', fi_size = 30, fi_last_modified = ''2024-01-01'',
                fi_path = ''https://x/f3''\<rparr>]
             []]]"

definition mk_sp_file :: "string \<Rightarrow> int \<Rightarrow> sp_item" where
  "mk_sp_file n sz = \<lparr> sp_Name = Some n, sp_Length = Some sz,
       sp_TimeLastModified = Some ''2024-01-01'', sp_ServerRelativeUrl = Some (''/sites/x/'' @ n) \<rparr>"

definition mk_sp_folder :: "string \<Rightarrow> string \<Rightarrow> sp_item" where
  "mk_sp_folder n url = \<lparr> sp_Name = Some n, sp_Length = None,
       sp_TimeLastModified = None, sp_ServerRelativeUrl = Some url \<rparr>"

definition sp_serve :: "(string \<times> sp_response) list \<Rightarrow> sp_backend" where
  "sp_serve table url = (case map_of table url of Some r \<Rightarrow> r | None \<Rightarrow> SpResponse 404 [])"

definition sp_demo :: sp_backend where
  "sp_demo = sp_serve
     [(files_url ''https://t'' ''/sites/x/Docs'', SpResponse 200 [mk_sp_file ''f1'' 100]),
      (folders_url ''https://t'' ''/sites/x/Docs'',
         SpResponse 200 [mk_sp_folder ''B'' ''/sites/x/Docs/B'',
                         mk_sp_folder ''_hidden'' ''/sites/x/Docs/_hidden'',
                         mk_sp_folder ''Forms'' ''/sites/x/Docs/Forms'']),
      (files_url ''https://t'' ''/sites/x/Docs/B'', SpResponse 200 [mk_sp_file ''f2'' 200]),
      (folders_url ''https://t'' ''/sites/x/Docs/B'',
         SpResponse 200 [mk_sp_folder ''C'' ''/sites/x/Docs/B/C'']),
      (files_url ''https://t'' ''/sites/x/Docs/B/C'', SpResponse 200 [mk_sp_file ''f3'' 30]),
      (files_url ''https://t'' ''/sites/x/Docs/_hidden'', SpResponse 200 [mk_sp_file ''f9'' 9999])]"

definition sp_demo_report :: report_node where
  "sp_demo_report =
     ReportNode None ''/sites/x/Docs'' ''Docs'' 330 3 2
       [\<lparr>fi_name = ''f1'', fi_size = 100, fi_last_modified = ''2024-01-01'',
          fi_path = ''/sites/x/f1''\<rparr>]
       [ReportNode None ''/sites/x/Docs/B'' ''B'' 230 2 1
          [\<lparr>fi_name = ''f2'', fi_size = 200, fi_last_modified = ''2024-01-01'',
             fi_path = ''/sites/x/f2''\<rparr>]
          [ReportNode None ''/sites/x/Docs/B/C'' ''C'' 30 1 0
             [\<lparr>fi_name = ''f3'', fi_size = 30, fi_last_modified = ''2024-01-01'',
                fi_path = ''/sites/x/f3''\<rparr>]
             []]]"



text \<open>A folder \<open>P\<close> that lists a folder entry without identifier and one file.\<close>

definition no_id_folder :: item where
  "no_id_folder = (mk_folder [] ''X'')\<lparr>item_id := None\<rparr>"

definition anomaly :: backend where
  "anomaly = serve
     [(children_url ''s'' ''d'' ''p'',
         Response 200 (mk_page [no_id_folder, mk_file ''f'' 10] None))]"

definition anomaly_report :: report_node where
  "anomaly_report =
     ReportNode (Some ''p'') ''https://x/P'' ''P'' 10 1 1
       [\<lparr>fi_name = ''f'', fi_size = 10, fi_last_modified = ''2024-01-01'',
          fi_path = ''https://x/f''\<rparr>]
       [ReportNode None ''https://x/X'' ''X'' 0 0 0 [] []]"

text \<open>A folder served on three pages of 2, 2 and 1 entries, by identifier and by path.\<close>

definition paged :: backend where
  "paged = serve
     [(children_url ''s'' ''d'' ''q'',
         Response 200 (mk_page [mk_file ''a'' 1, mk_folder ''x'' ''X''] (Some ''https://next/q2''))),
      (items_url ''s'' ''d'' ''Q'',
         Response 200 (mk_page [mk_file ''a'' 1, mk_folder ''x'' ''X''] (Some ''https://next/q2''))),
      (''https://next/q2'',
         Response 200 (mk_page [mk_file ''b'' 2, mk_file ''c'' 3] (Some ''https://next/q3''))),
      (''https://next/q3'', Response 200 (mk_page [mk_folder ''y'' ''Y''] None))]"

definition three_pages :: "body list" where
  "three_pages =
     [mk_page [mk_file ''a'' 1, mk_folder ''x'' ''X''] (Some ''https://next/q2''),
      mk_page [mk_file ''b'' 2, mk_file ''c'' 3] (Some ''https://next/q3''),
      mk_page [mk_folder ''y'' ''Y''] None]"

text \<open>The root folder for the walk by path: \<open>f1\<close>, \<open>B\<close>, two system folders, \<open>_notes\<close>.\<close>

definition graph_demo :: backend where
  "graph_demo = serve
     [(items_url ''s'' ''d'' [],
         Response 200 (mk_page [mk_file ''f1'' 100, mk_folder ''b'' ''B'',
                                mk_folder ''h'' ''_hidden'', mk_folder ''fo'' ''Forms'',
                                mk_file ''_notes'' 5] None)),
      (items_url ''s'' ''d'' ''B'', Response 200 (mk_page [mk_file ''f2'' 200] None)),
      (items_url ''s'' ''d'' ''_hidden'', Response 200 (mk_page [mk_file ''f9'' 9999] None)),
      (items_url ''s'' ''d'' ''Forms'', Response 200 (mk_page [mk_file ''f8'' 1] None))]"

definition graph_demo_report :: report_node where
  "graph_demo_report =
     ReportNode None [] ''Root'' 305 3 1
       [\<lparr>fi_name = ''f1'', fi_size = 100, fi_last_modified = ''2024-01-01'',
          fi_path = ''https://x/f1''\<rparr>,
        \<lparr>fi_name = ''_notes'', fi_size = 5, fi_last_modified = ''2024-01-01'',
          fi_path = ''https://x/_notes''\<rparr>]
       [ReportNode None ''B'' ''B'' 200 1 0
          [\<lparr>fi_name = ''f2'', fi_size = 200, fi_last_modified = ''2024-01-01'',
             fi_path = ''https://x/f2''\<rparr>]
          []]"

text \<open>
  A hierarchy two levels deep for the walk by path: the root holds the folders \<open>A\<close> and
  \<open>B\<close>; \<open>A\<close> holds a folder that is also named \<open>B\<close>, with the file \<open>g\<close> in it; the
  \<open>B\<close> of the root holds the file \<open>h\<close>.
\<close>

definition nested :: backend where
  "nested = serve
     [(items_url ''s'' ''d'' [],
         Response 200 (mk_page [mk_folder ''a'' ''A'', mk_folder ''b'' ''B''] None)),
      (items_url ''s'' ''d'' ''A'', Response 200 (mk_page [mk_folder ''ab'' ''B''] None)),
      (items_url ''s'' ''d'' ''A/B'', Response 200 (mk_page [mk_file ''g'' 7] None)),
      (items_url ''s'' ''d'' ''B'', Response 200 (mk_page [mk_file ''h'' 50] None))]"

text \<open>
  A finite hierarchy in which a folder holds a folder of its own name: the root holds the
  folder \<open>A\<close>, which holds the file \<open>g\<close> and a second folder \<open>A\<close>, which is empty.  The
  walk by path asks for the path \<open>A\<close> at every level.
\<close>

definition selfnest :: backend where
  "selfnest = serve
     [(items_url ''s'' ''d'' [], Response 200 (mk_page [mk_folder ''a'' ''A''] None)),
      (items_url ''s'' ''d'' ''A'',
         Response 200 (mk_page [mk_file ''g'' 7, mk_folder ''aa'' ''A''] None)),
      (items_url ''s'' ''d'' ''A/A'', Response 200 (mk_page [] None))]"


text \<open>A site with its document library, on which no folder \<open>Missing\<close> exists.\<close>

definition site_body :: body where
  "site_body = \<lparr> item_id = Some ''s'', item_name = Some ''x'', has_folder = False,
       has_file = False, item_size = None, item_lastModifiedDateTime = None,
       item_webUrl = Some ''https://t.sharepoint.com/sites/x'', page_value = None,
       nextLink = None, has_other_keys = True \<rparr>"

definition documents_drive :: item where
  "documents_drive = \<lparr> item_id = Some ''d'', item_name = Some ''Documents'', has_folder = False,
       has_file = False, item_size = None, item_lastModifiedDateTime = None,
       item_webUrl = None \<rparr>"

definition missing_root :: backend where
  "missing_root = serve
     [(site_url_of ''https://t.sharepoint.com/sites/x'', Response 200 site_body),
      (drives_url (Some ''s''), Response 200 (mk_page [documents_drive] None))]"

text \<open>
  The same site, where the item of the root is served as an object that holds none of the
  keys a program reads.
\<close>

definition unread_keys_only :: body where
  "unread_keys_only = \<lparr> item_id = None, item_name = None, has_folder = False,
       has_file = False, item_size = None, item_lastModifiedDateTime = None,
       item_webUrl = None, page_value = None, nextLink = None, has_other_keys = True \<rparr>"

definition bare_root :: backend where
  "bare_root = serve
     [(site_url_of ''https://t.sharepoint.com/sites/x'', Response 200 site_body),
      (drives_url (Some ''s''), Response 200 (mk_page [documents_drive] None)),
      (item_url ''s'' ''d'' [], Response 200 unread_keys_only)]"

section \<open>The loops in closed form\<close>

lemma those_map_Some: "those (map Some ys) = Some ys"
  by (induction ys) simp_all

lemma those_Some_iff: "those xs = Some ys \<longleftrightarrow> xs = map Some ys"
  by (induction xs arbitrary: ys) (auto split: option.splits)

lemma map_Some_nth:
  assumes "map f ds = map Some subs" and "s \<in> set subs"
  shows "\<exists>d \<in> set ds. f d = Some s"
proof -
  from assms(2) obtain k where k: "k < length subs" "subs ! k = s"
    by (auto simp: in_set_conv_nth)
  from assms(1) have len: "length ds = length subs" by (metis length_map)
  from assms(1) have "map f ds ! k = map Some subs ! k" by simp
  with k len have "f (ds ! k) = Some s" by simp
  with k len show ?thesis by (metis nth_mem)
qed

lemma fold_add_file:
  "fold add_file fl (ReportNode i p n ts fc dc fs ss) =
     ReportNode i p n (ts + sum_list (map (\<lambda>f. fi_size (file_info_of f)) fl))
       (fc + int (length fl)) dc (fs @ map file_info_of fl) ss"
  by (induction fl arbitrary: ts fc fs) simp_all

lemma fold_add_subfolder:
  "fold add_subfolder subs (ReportNode i p n ts fc dc fs ss) =
     ReportNode i p n (ts + sum_list (map total_size subs))
       (fc + sum_list (map file_count subs)) (dc + sum_list (map folder_count subs))
       fs (ss @ subs)"
  by (induction subs arbitrary: ts fc dc ss) simp_all

lemma process_subfolders_those:
  "process_subfolders rec ds r =
     (case those (map rec ds) of None \<Rightarrow> None | Some subs \<Rightarrow> Some (fold add_subfolder subs r))"
  by (induction ds arbitrary: r) (simp_all split: option.splits)

text \<open>What a call of \<^verbatim>\<open>calculate_folder_size\<close> that returns has returned.\<close>

lemma calculate_folder_size_Some:
  "calculate_folder_size (Suc depth) b site_id drive_id folder_item = Some node \<longleftrightarrow>
     (if falsy (item_id folder_item)
      then node = ReportNode (item_id folder_item) (get_or (item_webUrl folder_item) [])
                    (get_or (item_name folder_item) ''Unknown'') 0 0 0 [] []
      else \<exists>fl ds subs.
             get_folder_children b site_id drive_id (the (item_id folder_item)) = Some (fl, ds) \<and>
             map (calculate_folder_size depth b site_id drive_id) ds = map Some subs \<and>
             node = ReportNode (item_id folder_item) (get_or (item_webUrl folder_item) [])
                      (get_or (item_name folder_item) ''Unknown'')
                      (sum_list (map (\<lambda>f. fi_size (file_info_of f)) fl) + sum_list (map total_size subs))
                      (int (length fl) + sum_list (map file_count subs))
                      (int (length ds) + sum_list (map folder_count subs))
                      (map file_info_of fl) subs)"
  by (auto simp: Let_def fold_add_file fold_add_subfolder process_subfolders_those those_Some_iff
      those_map_Some split: option.splits)

lemma fold_add_file_v2:
  "fold add_file_v2 fl (ReportNode i p n ts fc dc fs ss) =
     ReportNode i p n (ts + sum_list (map (\<lambda>f. fi_size (file_info_of_v2 f)) fl))
       (fc + int (length fl)) dc (fs @ map file_info_of_v2 fl) ss"
  by (induction fl arbitrary: ts fc fs) simp_all

lemma process_subfolders_v2_those:
  "process_subfolders_v2 rec ds (ReportNode i p n ts fc dc fs ss) =
     (case those (map (\<lambda>d. rec (get_or (sp_ServerRelativeUrl d) [])) ds) of
        None \<Rightarrow> None
      | Some subs \<Rightarrow>
          Some (ReportNode i p n (ts + sum_list (map total_size subs))
                  (fc + sum_list (map file_count subs))
                  (dc + int (length subs) + sum_list (map folder_count subs))
                  fs (ss @ subs)))"
  by (induction ds arbitrary: ts fc dc ss) (simp_all add: Let_def split: option.splits)

lemma calculate_folder_size_v2_Some:
  "calculate_folder_size_v2 (Suc depth) b site_url folder_path = Some node \<longleftrightarrow>
     (case get_folder_items_v2 b site_url folder_path of
        Inl e \<Rightarrow> node = ReportNode None folder_path
                         (if basename folder_path \<noteq> [] then basename folder_path else ''Root'')
                         0 0 0 [] []
      | Inr (fl, ds) \<Rightarrow>
          (\<exists>subs. map (\<lambda>d. calculate_folder_size_v2 depth b site_url
                                (get_or (sp_ServerRelativeUrl d) [])) ds = map Some subs \<and>
             node = ReportNode None folder_path
                      (if basename folder_path \<noteq> [] then basename folder_path else ''Root'')
                      (sum_list (map (\<lambda>f. fi_size (file_info_of_v2 f)) fl) + sum_list (map total_size subs))
                      (int (length fl) + sum_list (map file_count subs))
                      (int (length subs) + sum_list (map folder_count subs))
                      (map file_info_of_v2 fl) subs))"
  by (auto simp: Let_def fold_add_file_v2 process_subfolders_v2_those those_Some_iff those_map_Some
      split: option.splits sum.splits)

section \<open>The example walks\<close>

lemma demo_walk:
  "calculate_folder_size 3 demo ''s'' ''d'' (mk_folder ''r'' ''A'') = Some demo_report"
  by code_simp

lemma sp_demo_walk:
  "calculate_folder_size_v2 3 sp_demo ''https://t'' ''/sites/x/Docs'' = Some sp_demo_report"
  by code_simp

section \<open>The aggregation law\<close>

lemma aggregation_law_main:
  "calculate_folder_size depth b site_id drive_id folder_item = Some node \<Longrightarrow> aggregation_law node"
proof (induction depth arbitrary: folder_item node)
  case 0
  then show ?case by simp
next
  case (Suc depth)
  show ?case
  proof (cases "falsy (item_id folder_item)")
    case True
    with Suc.prems show ?thesis
      by (simp add: calculate_folder_size_Some del: calculate_folder_size.simps)
  next
    case False
    with Suc.prems obtain fl ds subs where
      sub: "map (calculate_folder_size depth b site_id drive_id) ds = map Some subs" and
      node: "node = ReportNode (item_id folder_item) (get_or (item_webUrl folder_item) [])
                      (get_or (item_name folder_item) ''Unknown'')
                      (sum_list (map (\<lambda>f. fi_size (file_info_of f)) fl) + sum_list (map total_size subs))
                      (int (length fl) + sum_list (map file_count subs))
                      (int (length ds) + sum_list (map folder_count subs))
                      (map file_info_of fl) subs"
      by (auto simp: calculate_folder_size_Some simp del: calculate_folder_size.simps)
    from sub have len: "length ds = length subs" by (metis length_map)
    have "\<forall>s \<in> set subs. aggregation_law s"
      using map_Some_nth [OF sub] Suc.IH by blast
    then show ?thesis by (simp add: node len list_all_iff comp_def)
  qed
qed

lemma aggregation_law_v2:
  "calculate_folder_size_v2 depth b site_url folder_path = Some node \<Longrightarrow> aggregation_law node"
proof (induction depth arbitrary: folder_path node)
  case 0
  then show ?case by simp
next
  case (Suc depth)
  show ?case
  proof (cases "get_folder_items_v2 b site_url folder_path")
    case (Inl e)
    with Suc.prems show ?thesis
      by (simp add: calculate_folder_size_v2_Some del: calculate_folder_size_v2.simps)
  next
    case (Inr r)
    obtain fl ds where r: "r = (fl, ds)" by (cases r)
    with Inr Suc.prems obtain subs where
      sub: "map (\<lambda>d. calculate_folder_size_v2 depth b site_url
                                (get_or (sp_ServerRelativeUrl d) [])) ds = map Some subs" and
      node: "node = ReportNode None folder_path
                      (if basename folder_path \<noteq> [] then basename folder_path else ''Root'')
                      (sum_list (map (\<lambda>f. fi_size (file_info_of_v2 f)) fl) + sum_list (map total_size subs))
                      (int (length fl) + sum_list (map file_count subs))
                      (int (length subs) + sum_list (map folder_count subs))
                      (map file_info_of_v2 fl) subs"
      by (auto simp: calculate_folder_size_v2_Some simp del: calculate_folder_size_v2.simps)
    have "\<forall>s \<in> set subs. aggregation_law s"
      using map_Some_nth [OF sub] Suc.IH by blast
    then show ?thesis by (simp add: node list_all_iff comp_def)
  qed
qed

text \<open>
  C1.  Aggregation law: in the tree returned by a walk that completes, at every node the
  total size is the sum of the sizes of the node's files plus the total sizes of its
  subfolders, the file count is the number of its files plus the file counts of its
  subfolders, and the folder count is the number of its subfolders plus their folder
  counts.  This holds of \<^verbatim>\<open>calculate_folder_size\<close> in \<^verbatim>\<open>sharepoint_folder_size.py\<close> and
  in \<^verbatim>\<open>sharepoint_folder_size_v2.py\<close>.
\<close>

theorem aggregation_law_of_walk:
  "(calculate_folder_size depth b site_id drive_id folder_item = Some node
      \<longrightarrow> aggregation_law node) \<and>
   (calculate_folder_size_v2 depth' b' site_url folder_path = Some node'
      \<longrightarrow> aggregation_law node')"
  using aggregation_law_main aggregation_law_v2 by blast

theorem aggregation_law_of_walk_witness:
  "calculate_folder_size 3 demo ''s'' ''d'' (mk_folder ''r'' ''A'') = Some demo_report \<and>
   aggregation_law demo_report \<and>
   calculate_folder_size_v2 3 sp_demo ''https://t'' ''/sites/x/Docs'' = Some sp_demo_report \<and>
   aggregation_law sp_demo_report"
  using aggregation_law_of_walk [of 3 demo "''s''" "''d''" "mk_folder ''r'' ''A''" demo_report
      3 sp_demo "''https://t''" "''/sites/x/Docs''" sp_demo_report]
    demo_walk sp_demo_walk
  by blast

section \<open>The listing loop\<close>

lemma loop_falsy: "falsy u \<Longrightarrow> get_folder_children_loop b u fl ds = Some (fl, ds)"
  by (simp add: get_folder_children_loop.simps)

lemma loop_step:
  "url \<noteq> [] \<Longrightarrow> get_folder_children_loop b (Some url) fl ds =
     (case page_step b url fl ds of
        Inl r \<Rightarrow> Some r
      | Inr (url', fl', ds') \<Rightarrow> get_folder_children_loop b (Some url') fl' ds')"
  apply (subst get_folder_children_loop.simps)
  apply (auto simp: page_step_def entries_def falsy_def loop_falsy split: response.splits prod.splits option.splits)
  done

lemma loop_sim:
  assumes eq: "\<And>url fl ds. url \<noteq> [] \<Longrightarrow> page_step b url fl ds = page_step b' url fl ds"
    and run: "get_folder_children_loop b u fl ds = Some y"
  shows "get_folder_children_loop b' u fl ds = Some y"
proof -
  have "b = b \<longrightarrow> get_folder_children_loop b' u fl ds = Some y"
  proof (rule get_folder_children_loop.raw_induct
      [where P = "\<lambda>b0 u fl ds y. b0 = b \<longrightarrow> get_folder_children_loop b' u fl ds = Some y",
        OF _ run], goal_cases)
    case (1 loop b0 u fl ds y)
    show ?case
    proof
      assume b0: "b0 = b"
      note IH = 1(1)[rule_format, OF _ refl] and body = 1(2)[unfolded b0]
      show "get_folder_children_loop b' u fl ds = Some y"
      proof (cases "falsy u")
        case True
        with body show ?thesis by (simp add: loop_falsy)
      next
        case False
        then obtain url where u: "u = Some url" "url \<noteq> []"
          by (auto simp: falsy_def split: option.splits)
        show ?thesis
        proof (cases "page_step b url fl ds")
          case (Inl r)
          have "y = r"
            using body Inl False u
            by (auto simp: page_step_def entries_def loop_falsy dest!: IH
                split: response.splits prod.splits if_splits)
          with Inl eq[OF u(2)] u show ?thesis by (simp add: loop_step)
        next
          case (Inr t)
          obtain url' fl' ds' where t: "t = (url', fl', ds')" by (cases t)
          have "loop b (Some url') fl' ds' = Some y"
            using body Inr t False u
            by (auto simp: page_step_def entries_def falsy_def
                split: response.splits prod.splits if_splits option.splits)
          then have "get_folder_children_loop b' (Some url') fl' ds' = Some y"
            by (rule IH)
          with Inr t eq[OF u(2)] u show ?thesis by (simp add: loop_step)
        qed
      qed
    qed
  qed
  then show ?thesis by simp
qed

lemma option_eq_SomeI:
  assumes "\<And>y. f = Some y \<Longrightarrow> g = Some y" and "\<And>y. g = Some y \<Longrightarrow> f = Some y"
  shows "f = g"
  using assms by (cases f; cases g) auto

lemma loop_cong:
  assumes "\<And>url fl ds. url \<noteq> [] \<Longrightarrow> page_step b url fl ds = page_step b' url fl ds"
  shows "get_folder_children_loop b u fl ds = get_folder_children_loop b' u fl ds"
proof (rule option_eq_SomeI)
  fix y assume "get_folder_children_loop b u fl ds = Some y"
  with assms show "get_folder_children_loop b' u fl ds = Some y"
    by (rule loop_sim)
next
  fix y assume "get_folder_children_loop b' u fl ds = Some y"
  with assms [symmetric] show "get_folder_children_loop b u fl ds = Some y"
    by (rule loop_sim)
qed


lemma loop_invariant:
  assumes run: "get_folder_children_loop b u fl ds = Some y"
    and init: "I fl ds"
    and step: "\<And>url fl ds d c fl' ds'. I fl ds \<Longrightarrow> b url = Response 200 d \<Longrightarrow>
                 scan_items (entries d) fl ds = (c, fl', ds') \<Longrightarrow> I fl' ds'"
  shows "I (fst y) (snd y)"
proof -
  have "b = b \<longrightarrow> I fl ds \<longrightarrow> I (fst y) (snd y)"
  proof (rule get_folder_children_loop.raw_induct
      [where P = "\<lambda>b0 u fl ds y. b0 = b \<longrightarrow> I fl ds \<longrightarrow> I (fst y) (snd y)", OF _ run],
      goal_cases)
    case (1 loop b0 u fl ds y)
    show ?case
    proof (intro impI)
      assume b0: "b0 = b" and I: "I fl ds"
      note IH = 1(1)[rule_format, OF _ refl] and body = 1(2)[unfolded b0]
      show "I (fst y) (snd y)"
        using body I step IH
        by (auto simp: entries_def split: if_splits response.splits prod.splits)
    qed
  qed
  with init show ?thesis by simp
qed

lemma calculate_folder_size_cong:
  assumes "\<And>folder_id. get_folder_children b site_id drive_id folder_id =
                         get_folder_children b' site_id drive_id folder_id"
  shows "calculate_folder_size depth b site_id drive_id folder_item =
         calculate_folder_size depth b' site_id drive_id folder_item"
proof (induction depth arbitrary: folder_item)
  case 0
  show ?case by simp
next
  case (Suc depth)
  then have "calculate_folder_size depth b site_id drive_id =
             calculate_folder_size depth b' site_id drive_id"
    by blast
  then show ?case by (simp add: assms Let_def split: option.splits)
qed







section \<open>Folder entries without identifier\<close>

text \<open>
  The claim that a folder entry without identifier is skipped and not counted fails on
  the folder \<open>P\<close>: the entry is in \<open>subfolders\<close>, and the folder count of \<open>P\<close> is 1.
\<close>

theorem anomaly_is_counted_counterexample:
  "item_id no_id_folder = None \<and>
   get_folder_children anomaly ''s'' ''d'' ''p'' = Some ([mk_file ''f'' 10], [no_id_folder]) \<and>
   calculate_folder_size 2 anomaly ''s'' ''d'' (mk_folder ''p'' ''P'') =
     Some (ReportNode (Some ''p'') ''https://x/P'' ''P'' 10 1 1
            [\<lparr>fi_name = ''f'', fi_size = 10, fi_last_modified = ''2024-01-01'',
               fi_path = ''https://x/f''\<rparr>]
            [ReportNode None ''https://x/X'' ''X'' 0 0 0 [] []])"
  by code_simp

lemma anomaly_node:
  "falsy (item_id folder) \<Longrightarrow>
   calculate_folder_size (Suc depth) b site_id drive_id folder = Some (empty_report folder)"
  by (simp add: empty_report_def)

text \<open>
  C9, as the program has it.  For a folder entry whose identifier is missing or empty,
  \<^verbatim>\<open>calculate_folder_size\<close> returns the empty node (all three counters 0, no files, no
  subfolders) whatever the backend serves, so no children are fetched for it.  The
  parent appends that node to its \<open>subfolders\<close>, one node per folder listed, and its
  folder count is the number of folders listed plus the folder counts of the nodes.
\<close>

theorem anomaly_gets_empty_node:
  "(falsy (item_id folder) \<longrightarrow>
      calculate_folder_size (Suc depth) b site_id drive_id folder = Some (empty_report folder)) \<and>
   (\<not> falsy (item_id parent) \<and>
    get_folder_children b site_id drive_id (the (item_id parent)) = Some (fl, ds) \<and>
    calculate_folder_size (Suc (Suc depth)) b site_id drive_id parent = Some node \<longrightarrow>
      length (subfolders node) = length ds \<and>
      folder_count node = int (length ds) + sum_list (map folder_count (subfolders node)) \<and>
      (\<forall>k < length ds. falsy (item_id (ds ! k)) \<longrightarrow>
         subfolders node ! k = empty_report (ds ! k)))"
proof (intro conjI impI)
  assume "falsy (item_id folder)"
  then show "calculate_folder_size (Suc depth) b site_id drive_id folder = Some (empty_report folder)"
    by (rule anomaly_node)
next
  assume a: "\<not> falsy (item_id parent) \<and>
    get_folder_children b site_id drive_id (the (item_id parent)) = Some (fl, ds) \<and>
    calculate_folder_size (Suc (Suc depth)) b site_id drive_id parent = Some node"
  then obtain subs where
    sub: "map (calculate_folder_size (Suc depth) b site_id drive_id) ds = map Some subs" and
    node: "subfolders node = subs"
          "folder_count node = int (length ds) + sum_list (map folder_count subs)"
    by (auto simp: calculate_folder_size_Some simp del: calculate_folder_size.simps)
  from sub have len: "length ds = length subs" by (metis length_map)
  show "length (subfolders node) = length ds" using node len by simp
  show "folder_count node = int (length ds) + sum_list (map folder_count (subfolders node))"
    using node by simp
  show "\<forall>k < length ds. falsy (item_id (ds ! k)) \<longrightarrow>
         subfolders node ! k = empty_report (ds ! k)"
  proof (intro allI impI)
    fix k assume k: "k < length ds" and f: "falsy (item_id (ds ! k))"
    from sub have "map (calculate_folder_size (Suc depth) b site_id drive_id) ds ! k
                     = map Some subs ! k" by simp
    with k len have "calculate_folder_size (Suc depth) b site_id drive_id (ds ! k) = Some (subs ! k)"
      by simp
    with anomaly_node [OF f] node show "subfolders node ! k = empty_report (ds ! k)" by simp
  qed
qed

theorem anomaly_gets_empty_node_witness:
  "falsy (item_id no_id_folder) \<and>
   calculate_folder_size (Suc 0) anomaly ''s'' ''d'' no_id_folder = Some (empty_report no_id_folder) \<and>
   \<not> falsy (item_id (mk_folder ''p'' ''P'')) \<and>
   get_folder_children anomaly ''s'' ''d'' (the (item_id (mk_folder ''p'' ''P''))) =
     Some ([mk_file ''f'' 10], [no_id_folder]) \<and>
   calculate_folder_size (Suc (Suc 0)) anomaly ''s'' ''d'' (mk_folder ''p'' ''P'') =
     Some anomaly_report \<and>
   length (subfolders anomaly_report) = length [no_id_folder] \<and>
   folder_count anomaly_report =
     int (length [no_id_folder]) + sum_list (map folder_count (subfolders anomaly_report)) \<and>
   subfolders anomaly_report ! 0 = empty_report no_id_folder"
proof -
  have h1: "falsy (item_id no_id_folder)" by code_simp
  have h2: "\<not> falsy (item_id (mk_folder ''p'' ''P''))" by code_simp
  have h3: "get_folder_children anomaly ''s'' ''d'' (the (item_id (mk_folder ''p'' ''P''))) =
              Some ([mk_file ''f'' 10], [no_id_folder])" by code_simp
  have h4: "calculate_folder_size (Suc (Suc 0)) anomaly ''s'' ''d'' (mk_folder ''p'' ''P'') =
              Some anomaly_report"
    by code_simp
  note inst = anomaly_gets_empty_node [of no_id_folder 0 anomaly "''s''" "''d''"
      "mk_folder ''p'' ''P''" "[mk_file ''f'' 10]" "[no_id_folder]" anomaly_report]
  from inst h1 have c1: "calculate_folder_size (Suc 0) anomaly ''s'' ''d'' no_id_folder =
      Some (empty_report no_id_folder)" by blast
  from inst h2 h3 h4 have c2: "length (subfolders anomaly_report) = length [no_id_folder]"
    and c3: "folder_count anomaly_report =
     int (length [no_id_folder]) + sum_list (map folder_count (subfolders anomaly_report))"
    and c4: "\<forall>k < length [no_id_folder]. falsy (item_id ([no_id_folder] ! k)) \<longrightarrow>
         subfolders anomaly_report ! k = empty_report ([no_id_folder] ! k)"
    by blast+
  from c4 h1 have c5: "subfolders anomaly_report ! 0 = empty_report no_id_folder" by simp
  from h1 c1 h2 h3 h4 c2 c3 c5 show ?thesis by blast
qed

section \<open>Pagination\<close>

lemma scan_items_named:
  "\<forall>it \<in> set items. has_folder it \<longrightarrow> item_name it \<noteq> None \<Longrightarrow>
   scan_items items fl ds =
     (True, fl @ filter file_entry items, ds @ filter admitted_folder items)"
  by (induction items arbitrary: fl ds)
     (auto simp: file_entry_def admitted_folder_def system_folder_def)

lemma sort_items_filter:
  "sort_items items fl ds = (fl @ filter file_entry items, ds @ filter has_folder items)"
  by (induction items arbitrary: fl ds) (auto simp: file_entry_def)

lemma get_folder_children_loop_pages:
  "served_pages b url pages \<Longrightarrow> url \<noteq> [] \<Longrightarrow>
   \<forall>it \<in> set (concat (map entries pages)). has_folder it \<longrightarrow> item_name it \<noteq> None \<Longrightarrow>
   get_folder_children_loop b (Some url) fl ds =
     Some (fl @ filter file_entry (concat (map entries pages)),
           ds @ filter admitted_folder (concat (map entries pages)))"
proof (induction b url pages arbitrary: fl ds rule: served_pages.induct)
  case (1 b url)
  then show ?case by simp
next
  case (2 b url p)
  then show ?case
    by (subst get_folder_children_loop.simps)
       (simp add: falsy_def scan_items_named loop_falsy entries_def)
next
  case (3 b url p q ps)
  from 3(2) obtain url' where n: "nextLink p = Some url'" "url' \<noteq> []"
    by (auto simp: falsy_def split: option.splits)
  have names: "\<forall>it \<in> set (entries p). has_folder it \<longrightarrow> item_name it \<noteq> None"
    using 3(4) by simp
  have rest: "\<forall>it \<in> set (concat (map entries (q # ps))). has_folder it \<longrightarrow> item_name it \<noteq> None"
    using 3(4) by simp
  have "get_folder_children_loop b (Some url) fl ds =
        get_folder_children_loop b (Some url') (fl @ filter file_entry (entries p))
          (ds @ filter admitted_folder (entries p))"
    using 3(2) 3(3) n
    by (subst get_folder_children_loop.simps)
       (simp add: falsy_def scan_items_named [OF names] entries_def [symmetric])
  also have "\<dots> = Some ((fl @ filter file_entry (entries p)) @
                        filter file_entry (concat (map entries (q # ps))),
                      (ds @ filter admitted_folder (entries p)) @
                        filter admitted_folder (concat (map entries (q # ps))))"
    using 3(1) [of "fl @ filter file_entry (entries p)" "ds @ filter admitted_folder (entries p)"]
      3(2) n rest by simp
  finally show ?case by simp
qed

lemma items_loop_falsy: "falsy u \<Longrightarrow> get_folder_items_loop b u fl ds = Some (fl, ds)"
  by (simp add: get_folder_items_loop.simps)

lemma get_folder_items_loop_pages:
  "served_pages b url pages \<Longrightarrow> url \<noteq> [] \<Longrightarrow>
   get_folder_items_loop b (Some url) fl ds =
     Some (fl @ filter file_entry (concat (map entries pages)),
           ds @ filter has_folder (concat (map entries pages)))"
proof (induction b url pages arbitrary: fl ds rule: served_pages.induct)
  case (1 b url)
  then show ?case by simp
next
  case (2 b url p)
  then show ?case
    by (subst get_folder_items_loop.simps)
       (simp add: falsy_def sort_items_filter items_loop_falsy entries_def)
next
  case (3 b url p q ps)
  from 3(2) obtain url' where n: "nextLink p = Some url'" "url' \<noteq> []"
    by (auto simp: falsy_def split: option.splits)
  have "get_folder_items_loop b (Some url) fl ds =
        get_folder_items_loop b (Some url') (fl @ filter file_entry (entries p))
          (ds @ filter has_folder (entries p))"
    using 3(2) 3(3) n
    by (subst get_folder_items_loop.simps)
       (simp add: falsy_def sort_items_filter entries_def [symmetric])
  also have "\<dots> = Some ((fl @ filter file_entry (entries p)) @
                        filter file_entry (concat (map entries (q # ps))),
                      (ds @ filter has_folder (entries p)) @
                        filter has_folder (concat (map entries (q # ps))))"
    using 3(1) [of "fl @ filter file_entry (entries p)" "ds @ filter has_folder (entries p)"]
      3(2) n by simp
  finally show ?case by simp
qed

lemma children_url_nonempty: "children_url site_id drive_id folder_id \<noteq> []"
  by (simp add: children_url_def)

lemma items_url_nonempty: "items_url site_id drive_id folder_path \<noteq> []"
  by (simp add: items_url_def)

lemma partition_length:
  assumes "\<forall>x \<in> set xs. P x \<or> Q x" and "\<forall>x \<in> set xs. \<not> (P x \<and> Q x)"
  shows "length (filter P xs) + length (filter Q xs) = length xs"
  using assms by (induction xs) auto

lemma partition_mset:
  assumes "\<forall>x \<in> set xs. P x \<or> Q x" and "\<forall>x \<in> set xs. \<not> (P x \<and> Q x)"
  shows "mset (filter P xs @ filter Q xs) = mset xs"
  using assms by (induction xs) auto

text \<open>
  C5.  Pagination: when a listing is served on pages, each carrying the cursor of the
  next and the last carrying none, the fetcher requests every page in turn and returns
  the entries in page order, the files in one list and the folders in the other
  (\<^verbatim>\<open>get_folder_children\<close> keeps the folders that are not system folders,
  \<^verbatim>\<open>get_folder_items\<close> keeps every folder).  When every entry is a file or a folder that
  is kept, the two lists together hold exactly the entries of the pages, none twice and
  none dropped, and their lengths add up to the sizes of the pages: 5 for pages of 2, 2
  and 1 entries.
\<close>

theorem pagination_drains_every_page:
  "(served_pages b (children_url site_id drive_id folder_id) pages \<and>
    (\<forall>it \<in> set (concat (map entries pages)). has_folder it \<longrightarrow> item_name it \<noteq> None) \<longrightarrow>
      (\<exists>fl ds. get_folder_children b site_id drive_id folder_id = Some (fl, ds) \<and>
         fl = filter file_entry (concat (map entries pages)) \<and>
         ds = filter admitted_folder (concat (map entries pages)) \<and>
         ((\<forall>it \<in> set (concat (map entries pages)). file_entry it \<or> admitted_folder it) \<longrightarrow>
            mset (fl @ ds) = mset (concat (map entries pages)) \<and>
            length fl + length ds = sum_list (map (length \<circ> entries) pages)))) \<and>
   (served_pages b' (items_url site_id' drive_id' (strip_site_prefix folder_path)) pages' \<longrightarrow>
      (\<exists>fl ds. get_folder_items b' site_id' drive_id' folder_path = Some (fl, ds) \<and>
         fl = filter file_entry (concat (map entries pages')) \<and>
         ds = filter has_folder (concat (map entries pages')) \<and>
         ((\<forall>it \<in> set (concat (map entries pages')). has_file it \<or> has_folder it) \<longrightarrow>
            mset (fl @ ds) = mset (concat (map entries pages')) \<and>
            length fl + length ds = sum_list (map (length \<circ> entries) pages'))))"
proof (intro conjI impI)
  let ?all = "concat (map entries pages)"
  assume a: "served_pages b (children_url site_id drive_id folder_id) pages \<and>
    (\<forall>it \<in> set ?all. has_folder it \<longrightarrow> item_name it \<noteq> None)"
  then have run: "get_folder_children b site_id drive_id folder_id =
      Some (filter file_entry ?all, filter admitted_folder ?all)"
    unfolding get_folder_children_def
    using get_folder_children_loop_pages [of b _ pages "[]" "[]"] children_url_nonempty
    by simp
  have part: "(\<forall>it \<in> set ?all. file_entry it \<or> admitted_folder it) \<longrightarrow>
      mset (filter file_entry ?all @ filter admitted_folder ?all) = mset ?all \<and>
      length (filter file_entry ?all) + length (filter admitted_folder ?all) =
        sum_list (map (length \<circ> entries) pages)"
  proof
    assume k: "\<forall>it \<in> set ?all. file_entry it \<or> admitted_folder it"
    then have m: "mset (filter file_entry ?all @ filter admitted_folder ?all) = mset ?all"
      by (intro partition_mset) (auto simp: file_entry_def admitted_folder_def)
    from k have "length (filter file_entry ?all) + length (filter admitted_folder ?all) = length ?all"
      by (intro partition_length) (auto simp: file_entry_def admitted_folder_def)
    with m show "mset (filter file_entry ?all @ filter admitted_folder ?all) = mset ?all \<and>
      length (filter file_entry ?all) + length (filter admitted_folder ?all) =
        sum_list (map (length \<circ> entries) pages)"
      by (simp add: length_concat comp_def)
  qed
  from run part show "\<exists>fl ds. get_folder_children b site_id drive_id folder_id = Some (fl, ds) \<and>
         fl = filter file_entry ?all \<and> ds = filter admitted_folder ?all \<and>
         ((\<forall>it \<in> set ?all. file_entry it \<or> admitted_folder it) \<longrightarrow>
            mset (fl @ ds) = mset ?all \<and>
            length fl + length ds = sum_list (map (length \<circ> entries) pages))"
    by blast
next
  let ?all = "concat (map entries pages')"
  assume a: "served_pages b' (items_url site_id' drive_id' (strip_site_prefix folder_path)) pages'"
  then have run: "get_folder_items b' site_id' drive_id' folder_path =
      Some (filter file_entry ?all, filter has_folder ?all)"
    unfolding get_folder_items_def
    using get_folder_items_loop_pages [of b' _ pages' "[]" "[]"] items_url_nonempty
    by simp
  have part: "(\<forall>it \<in> set ?all. has_file it \<or> has_folder it) \<longrightarrow>
      mset (filter file_entry ?all @ filter has_folder ?all) = mset ?all \<and>
      length (filter file_entry ?all) + length (filter has_folder ?all) =
        sum_list (map (length \<circ> entries) pages')"
  proof
    assume k: "\<forall>it \<in> set ?all. has_file it \<or> has_folder it"
    then have m: "mset (filter file_entry ?all @ filter has_folder ?all) = mset ?all"
      by (intro partition_mset) (auto simp: file_entry_def)
    from k have "length (filter file_entry ?all) + length (filter has_folder ?all) = length ?all"
      by (intro partition_length) (auto simp: file_entry_def)
    with m show "mset (filter file_entry ?all @ filter has_folder ?all) = mset ?all \<and>
      length (filter file_entry ?all) + length (filter has_folder ?all) =
        sum_list (map (length \<circ> entries) pages')"
      by (simp add: length_concat comp_def)
  qed
  from run part show "\<exists>fl ds. get_folder_items b' site_id' drive_id' folder_path = Some (fl, ds) \<and>
         fl = filter file_entry ?all \<and> ds = filter has_folder ?all \<and>
         ((\<forall>it \<in> set ?all. has_file it \<or> has_folder it) \<longrightarrow>
            mset (fl @ ds) = mset ?all \<and>
            length fl + length ds = sum_list (map (length \<circ> entries) pages'))"
    by blast
qed


theorem pagination_drains_every_page_witness:
  "served_pages paged (children_url ''s'' ''d'' ''q'') three_pages \<and>
   list_all (\<lambda>it. item_name it \<noteq> None) (concat (map entries three_pages)) \<and>
   list_all (\<lambda>it. file_entry it \<or> admitted_folder it) (concat (map entries three_pages)) \<and>
   map (length \<circ> entries) three_pages = [2, 2, 1] \<and>
   get_folder_children paged ''s'' ''d'' ''q'' =
     Some ([mk_file ''a'' 1, mk_file ''b'' 2, mk_file ''c'' 3],
           [mk_folder ''x'' ''X'', mk_folder ''y'' ''Y'']) \<and>
   length [mk_file ''a'' 1, mk_file ''b'' 2, mk_file ''c'' 3] +
     length [mk_folder ''x'' ''X'', mk_folder ''y'' ''Y''] = sum_list [2, 2, 1] \<and>
   served_pages paged (items_url ''s'' ''d'' (strip_site_prefix ''Q'')) three_pages \<and>
   list_all (\<lambda>it. has_file it \<or> has_folder it) (concat (map entries three_pages)) \<and>
   get_folder_items paged ''s'' ''d'' ''Q'' =
     Some ([mk_file ''a'' 1, mk_file ''b'' 2, mk_file ''c'' 3],
           [mk_folder ''x'' ''X'', mk_folder ''y'' ''Y''])"
proof -
  let ?all = "concat (map entries three_pages)"
  have h1: "served_pages paged (children_url ''s'' ''d'' ''q'') three_pages" by code_simp
  have h2: "\<forall>it \<in> set ?all. has_folder it \<longrightarrow> item_name it \<noteq> None" by code_simp
  have h3: "\<forall>it \<in> set ?all. file_entry it \<or> admitted_folder it" by code_simp
  have h4: "served_pages paged (items_url ''s'' ''d'' (strip_site_prefix ''Q'')) three_pages"
    by code_simp
  have h5: "\<forall>it \<in> set ?all. has_file it \<or> has_folder it" by code_simp
  have sizes: "map (length \<circ> entries) three_pages = [2, 2, 1]" by code_simp
  have f: "filter file_entry ?all = [mk_file ''a'' 1, mk_file ''b'' 2, mk_file ''c'' 3]"
    by code_simp
  have d: "filter admitted_folder ?all = [mk_folder ''x'' ''X'', mk_folder ''y'' ''Y'']"
    by code_simp
  have d': "filter has_folder ?all = [mk_folder ''x'' ''X'', mk_folder ''y'' ''Y'']"
    by code_simp
  note inst = pagination_drains_every_page [of paged "''s''" "''d''" "''q''" three_pages
      paged "''s''" "''d''" "''Q''" three_pages]
  from inst h1 h2 h3 obtain fl ds where
    r: "get_folder_children paged ''s'' ''d'' ''q'' = Some (fl, ds)"
       "fl = filter file_entry ?all" "ds = filter admitted_folder ?all"
       "length fl + length ds = sum_list (map (length \<circ> entries) three_pages)"
    by blast
  from inst h4 h5 obtain fl' ds' where
    r': "get_folder_items paged ''s'' ''d'' ''Q'' = Some (fl', ds')"
       "fl' = filter file_entry ?all" "ds' = filter has_folder ?all"
    by blast
  from r f d sizes have c1: "get_folder_children paged ''s'' ''d'' ''q'' =
     Some ([mk_file ''a'' 1, mk_file ''b'' 2, mk_file ''c'' 3],
           [mk_folder ''x'' ''X'', mk_folder ''y'' ''Y''])"
    and c2: "length [mk_file ''a'' 1, mk_file ''b'' 2, mk_file ''c'' 3] +
     length [mk_folder ''x'' ''X'', mk_folder ''y'' ''Y''] = sum_list [2, 2, 1]"
    by simp_all
  from r' f d' have c3: "get_folder_items paged ''s'' ''d'' ''Q'' =
     Some ([mk_file ''a'' 1, mk_file ''b'' 2, mk_file ''c'' 3],
           [mk_folder ''x'' ''X'', mk_folder ''y'' ''Y''])"
    by simp
  have g2: "list_all (\<lambda>it. item_name it \<noteq> None) ?all" by code_simp
  have g3: "list_all (\<lambda>it. file_entry it \<or> admitted_folder it) ?all" by code_simp
  have g5: "list_all (\<lambda>it. has_file it \<or> has_folder it) ?all" by code_simp
  from h1 g2 g3 sizes c1 c2 h4 g5 c3 show ?thesis by blast
qed

section \<open>The walk by path in closed form\<close>

lemma graph_demo_walk:
  "calculate_folder_size_graph_api 2 graph_demo ''s'' ''d'' [] None = Some graph_demo_report"
  by code_simp


lemma process_subfolders_graph_api_those:
  "process_subfolders_graph_api rec ds (ReportNode i p n ts fc dc fs ss) =
     (case those (map (\<lambda>d. rec (name_of d) (Some (name_of d)))
                   (filter (\<lambda>d. \<not> system_folder (name_of d)) ds)) of
        None \<Rightarrow> None
      | Some subs \<Rightarrow>
          Some (ReportNode i p n (ts + sum_list (map total_size subs))
                  (fc + sum_list (map file_count subs))
                  (dc + int (length subs) + sum_list (map folder_count subs))
                  fs (ss @ subs)))"
  by (induction ds arbitrary: ts fc dc ss)
     (simp_all add: Let_def name_of_def system_folder_def split: option.splits)

lemma calculate_folder_size_graph_api_Some:
  "calculate_folder_size_graph_api (Suc depth) b site_id drive_id folder_path folder_name = Some node
   \<longleftrightarrow>
   (\<exists>fl ds subs.
      get_folder_items b site_id drive_id folder_path = Some (fl, ds) \<and>
      map (\<lambda>d. calculate_folder_size_graph_api depth b site_id drive_id (name_of d) (Some (name_of d)))
        (filter (\<lambda>d. \<not> system_folder (name_of d)) ds) = map Some subs \<and>
      node = ReportNode None folder_path (display_name_of folder_name folder_path)
               (sum_list (map (\<lambda>f. fi_size (file_info_of f)) fl) + sum_list (map total_size subs))
               (int (length fl) + sum_list (map file_count subs))
               (int (length subs) + sum_list (map folder_count subs))
               (map file_info_of fl) subs)"
  by (auto simp: Let_def fold_add_file process_subfolders_graph_api_those those_Some_iff
      those_map_Some split: option.splits)

section \<open>The system folders\<close>

lemma scan_items_hidden:
  "scan_items (filter (\<lambda>it. \<not> system_entry it) items) fl ds = scan_items items fl ds"
  by (induction items arbitrary: fl ds)
     (auto simp: system_entry_def system_named_def system_folder_def split: option.splits)

lemma page_step_hidden: "page_step (hide_system_folders b) url fl ds = page_step b url fl ds"
  by (cases "b url")
     (auto simp: page_step_def hide_system_folders_def entries_def get_or_def scan_items_hidden
       split: option.splits prod.splits)

lemma get_folder_children_hidden:
  "get_folder_children (hide_system_folders b) site_id drive_id folder_id =
   get_folder_children b site_id drive_id folder_id"
  unfolding get_folder_children_def by (intro loop_cong page_step_hidden)

lemma scan_items_admitted:
  "scan_items items fl ds = (c, fl', ds') \<Longrightarrow> \<forall>d \<in> set ds. admitted_folder d \<Longrightarrow>
   \<forall>d \<in> set ds'. admitted_folder d"
proof (induction items fl ds rule: scan_items.induct)
  case (1 fl ds)
  then show ?case by simp
next
  case (2 it items fl ds)
  show ?case
  proof (cases "has_folder it")
    case True
    show ?thesis
    proof (cases "item_name it")
      case None
      with True 2(5,6) show ?thesis by simp
    next
      case (Some n)
      show ?thesis
      proof (cases "startswith n ''_'' \<or> n = ''Forms''")
        case sys: True
        with True Some 2(2)[OF True Some] 2(5,6) show ?thesis by simp
      next
        case adm: False
        then have "admitted_folder it"
          using True Some by (simp add: admitted_folder_def system_folder_def)
        with adm True Some 2(1)[OF True Some] 2(5,6) show ?thesis by simp
      qed
    qed
  next
    case False
    with 2(3,4) 2(5,6) show ?thesis by (simp split: if_splits)
  qed
qed

lemma get_folder_children_admitted:
  assumes "get_folder_children b site_id drive_id folder_id = Some (fl, ds)"
  shows "\<forall>d \<in> set ds. admitted_folder d"
proof -
  from assms have run: "get_folder_children_loop b
      (Some (children_url site_id drive_id folder_id)) [] [] = Some (fl, ds)"
    by (simp add: get_folder_children_def)
  have "\<forall>d \<in> set (snd (fl, ds)). admitted_folder d"
  proof (rule loop_invariant
      [where I = "\<lambda>fl ds. \<forall>d \<in> set ds. admitted_folder d", OF run])
    show "\<forall>d \<in> set []. admitted_folder d" by simp
  next
    fix url fl ds d c fl' ds'
    assume "\<forall>d \<in> set ds. admitted_folder d"
      and "scan_items (entries d) fl ds = (c, fl', ds')"
    then show "\<forall>d \<in> set ds'. admitted_folder d"
      using scan_items_admitted by blast
  qed
  then show ?thesis by simp
qed

lemma scan_items_files:
  "scan_items items fl ds = (True, fl', ds') \<Longrightarrow> fl' = fl @ filter file_entry items"
  by (induction items fl ds rule: scan_items.induct)
     (auto simp: file_entry_def split: if_splits option.splits)

lemma name_of_walk:
  "calculate_folder_size depth b site_id drive_id folder_item = Some node \<Longrightarrow>
   name node = get_or (item_name folder_item) ''Unknown''"
  by (cases depth)
     (auto simp: calculate_folder_size_Some simp del: calculate_folder_size.simps(2)
       split: if_splits)

lemma no_system_folders_main:
  "calculate_folder_size depth b site_id drive_id folder_item = Some node \<Longrightarrow>
   no_system_folders node"
proof (induction depth arbitrary: folder_item node)
  case 0
  then show ?case by simp
next
  case (Suc depth)
  show ?case
  proof (cases "falsy (item_id folder_item)")
    case True
    with Suc.prems show ?thesis
      by (simp add: calculate_folder_size_Some del: calculate_folder_size.simps)
  next
    case False
    with Suc.prems obtain fl ds subs where
      ch: "get_folder_children b site_id drive_id (the (item_id folder_item)) = Some (fl, ds)" and
      sub: "map (calculate_folder_size depth b site_id drive_id) ds = map Some subs" and
      node: "subfolders node = subs"
      by (auto simp: calculate_folder_size_Some simp del: calculate_folder_size.simps)
    have "\<forall>s \<in> set subs. \<not> system_folder (name s) \<and> no_system_folders s"
    proof
      fix s assume "s \<in> set subs"
      with map_Some_nth [OF sub] obtain d where
        d: "d \<in> set ds" "calculate_folder_size depth b site_id drive_id d = Some s"
        by blast
      from d(1) get_folder_children_admitted [OF ch] have "admitted_folder d" by blast
      with name_of_walk [OF d(2)] have "\<not> system_folder (name s)"
        by (auto simp: admitted_folder_def get_or_def split: option.splits)
      with Suc.IH [OF d(2)] show "\<not> system_folder (name s) \<and> no_system_folders s" by simp
    qed
    with node show ?thesis by (cases node) (simp add: list_all_iff)
  qed
qed

lemma name_of_walk_graph_api:
  "calculate_folder_size_graph_api depth b site_id drive_id folder_path folder_name = Some node \<Longrightarrow>
   name node = display_name_of folder_name folder_path"
  by (cases depth)
     (auto simp: calculate_folder_size_graph_api_Some
       simp del: calculate_folder_size_graph_api.simps(2))

lemma display_name_not_system:
  "\<not> system_folder n \<Longrightarrow> \<not> system_folder (display_name_of (Some n) n)"
  by (auto simp: display_name_of_def falsy_def system_folder_def startswith_def basename_def)

lemma no_system_folders_graph_api:
  "calculate_folder_size_graph_api depth b site_id drive_id folder_path folder_name = Some node \<Longrightarrow>
   no_system_folders node"
proof (induction depth arbitrary: folder_path folder_name node)
  case 0
  then show ?case by simp
next
  case (Suc depth)
  from Suc.prems obtain fl ds subs where
    sub: "map (\<lambda>d. calculate_folder_size_graph_api depth b site_id drive_id (name_of d) (Some (name_of d)))
        (filter (\<lambda>d. \<not> system_folder (name_of d)) ds) = map Some subs" and
    node: "subfolders node = subs"
    by (auto simp: calculate_folder_size_graph_api_Some simp del: calculate_folder_size_graph_api.simps)
  have "\<forall>s \<in> set subs. \<not> system_folder (name s) \<and> no_system_folders s"
  proof
    fix s assume "s \<in> set subs"
    from map_Some_nth [OF sub this] obtain d where
      d0: "d \<in> set (filter (\<lambda>d. \<not> system_folder (name_of d)) ds)" and
      d2: "calculate_folder_size_graph_api depth b site_id drive_id (name_of d) (Some (name_of d)) = Some s"
      by blast
    from d0 have d1: "\<not> system_folder (name_of d)" by simp
    note d = d1 d2
    from name_of_walk_graph_api [OF d(2)] display_name_not_system [OF d(1)]
    have "\<not> system_folder (name s)" by simp
    with Suc.IH [OF d(2)] show "\<not> system_folder (name s) \<and> no_system_folders s" by simp
  qed
  with node show ?case by (cases node) (simp add: list_all_iff)
qed

lemma process_subfolders_graph_api_hidden:
  "process_subfolders_graph_api rec (filter (\<lambda>it. \<not> system_named it) folder_items) result =
   process_subfolders_graph_api rec folder_items result"
proof -
  have "filter (\<lambda>d. \<not> system_folder (name_of d)) (filter (\<lambda>it. \<not> system_named it) folder_items) =
        filter (\<lambda>d. \<not> system_folder (name_of d)) folder_items"
    by (induction folder_items)
       (auto simp: system_named_def name_of_def get_or_def split: option.splits)
  then show ?thesis by (cases result) (simp add: process_subfolders_graph_api_those)
qed

text \<open>
  C2.  Filter exclusion.  In \<^verbatim>\<open>sharepoint_folder_size.py\<close> no node below the root of a
  returned tree carries a name that starts with \<^verbatim>\<open>_\<close> or equals \<^verbatim>\<open>Forms\<close>, and the walk
  returns what it returns on the backend from whose pages those folder entries have
  been removed: they are not visited and add nothing to any counter.  A page scanned to
  its end yields every file entry, whatever its name.  In \<^verbatim>\<open>sharepoint_graph_api.py\<close>
  the same holds of the returned tree; the loop over the folders returns what it returns
  on the list without the entries that carry such a name, for every recursive call; and
  a page yields every file entry and every folder entry.
\<close>

theorem system_folders_are_invisible:
  "(calculate_folder_size depth b site_id drive_id folder_item = Some node
      \<longrightarrow> no_system_folders node) \<and>
   calculate_folder_size depth (hide_system_folders b) site_id drive_id folder_item =
     calculate_folder_size depth b site_id drive_id folder_item \<and>
   (scan_items items fl ds = (True, fl', ds') \<longrightarrow> fl' = fl @ filter file_entry items) \<and>
   (calculate_folder_size_graph_api depth b site_id drive_id folder_path folder_name = Some node'
      \<longrightarrow> no_system_folders node') \<and>
   process_subfolders_graph_api rec (filter (\<lambda>it. \<not> system_named it) folder_items) result =
     process_subfolders_graph_api rec folder_items result \<and>
   sort_items items fl ds = (fl @ filter file_entry items, ds @ filter has_folder items)"
proof (intro conjI impI)
  show "calculate_folder_size depth (hide_system_folders b) site_id drive_id folder_item =
     calculate_folder_size depth b site_id drive_id folder_item"
    by (intro calculate_folder_size_cong get_folder_children_hidden)
  show "process_subfolders_graph_api rec (filter (\<lambda>it. \<not> system_named it) folder_items) result =
     process_subfolders_graph_api rec folder_items result"
    by (rule process_subfolders_graph_api_hidden)
  show "sort_items items fl ds = (fl @ filter file_entry items, ds @ filter has_folder items)"
    by (rule sort_items_filter)
next
  assume "calculate_folder_size depth b site_id drive_id folder_item = Some node"
  then show "no_system_folders node" by (rule no_system_folders_main)
next
  assume "scan_items items fl ds = (True, fl', ds')"
  then show "fl' = fl @ filter file_entry items" by (rule scan_items_files)
next
  assume "calculate_folder_size_graph_api depth b site_id drive_id folder_path folder_name = Some node'"
  then show "no_system_folders node'" by (rule no_system_folders_graph_api)
qed


theorem system_folders_are_invisible_witness:
  "calculate_folder_size 3 demo ''s'' ''d'' (mk_folder ''r'' ''A'') = Some demo_report \<and>
   no_system_folders demo_report \<and>
   calculate_folder_size 3 (hide_system_folders demo) ''s'' ''d'' (mk_folder ''r'' ''A'') =
     Some demo_report \<and>
   scan_items [mk_folder ''h'' ''_hidden'', mk_file ''_notes'' 5, mk_file ''Forms'' 7] [] [] =
     (True, [mk_file ''_notes'' 5, mk_file ''Forms'' 7], []) \<and>
   [mk_file ''_notes'' 5, mk_file ''Forms'' 7] =
     [] @ filter file_entry [mk_folder ''h'' ''_hidden'', mk_file ''_notes'' 5, mk_file ''Forms'' 7] \<and>
   calculate_folder_size_graph_api 2 graph_demo ''s'' ''d'' [] None = Some graph_demo_report \<and>
   no_system_folders graph_demo_report"
proof -
  have h: "scan_items [mk_folder ''h'' ''_hidden'', mk_file ''_notes'' 5, mk_file ''Forms'' 7] [] [] =
     (True, [mk_file ''_notes'' 5, mk_file ''Forms'' 7], [])"
    by code_simp
  note inst = system_folders_are_invisible [of 3 demo "''s''" "''d''" "mk_folder ''r'' ''A''"
      demo_report "[mk_folder ''h'' ''_hidden'', mk_file ''_notes'' 5, mk_file ''Forms'' 7]"
      "[]" "[]" "[mk_file ''_notes'' 5, mk_file ''Forms'' 7]" "[]"]
  note inst' = system_folders_are_invisible [of 2 graph_demo "''s''" "''d''" _ _ _ _ _ _ _
      "[]" None graph_demo_report]
  from inst demo_walk h have
    c1: "no_system_folders demo_report" and
    c2: "calculate_folder_size 3 (hide_system_folders demo) ''s'' ''d'' (mk_folder ''r'' ''A'') =
           Some demo_report" and
    c3: "[mk_file ''_notes'' 5, mk_file ''Forms'' 7] =
     [] @ filter file_entry [mk_folder ''h'' ''_hidden'', mk_file ''_notes'' 5, mk_file ''Forms'' 7]"
    by simp_all
  from inst' graph_demo_walk have c4: "no_system_folders graph_demo_report" by blast
  from demo_walk c1 c2 h c3 graph_demo_walk c4 show ?thesis by blast
qed

section \<open>The target of the recursive call\<close>

text \<open>
  C6.  \<^verbatim>\<open>sharepoint_graph_api.py\<close> passes the name of the subfolder as the path of the
  recursive call.  Below the first level that path is not the subfolder's: the call for
  the folder \<open>B\<close> inside \<open>A\<close> lists the folder \<open>B\<close> of the root.  The file \<open>g\<close> of
  \<open>A/B\<close> is in no node, the file \<open>h\<close> is counted twice, and the total is 100 where the
  hierarchy holds 57 bytes.
\<close>

theorem recursion_target_graph_api_failing_input:
  "get_folder_items nested ''s'' ''d'' ''A/B'' = Some ([mk_file ''g'' 7], []) \<and>
   get_folder_items nested ''s'' ''d'' ''B'' = Some ([mk_file ''h'' 50], []) \<and>
   calculate_folder_size_graph_api 3 nested ''s'' ''d'' [] None =
     Some (ReportNode None [] ''Root'' 100 2 3 []
            [ReportNode None ''A'' ''A'' 50 1 1 []
               [ReportNode None ''B'' ''B'' 50 1 0 [file_info_of (mk_file ''h'' 50)] []],
             ReportNode None ''B'' ''B'' 50 1 0 [file_info_of (mk_file ''h'' 50)] []])"
  by code_simp

section \<open>Failure at the root\<close>

text \<open>
  In \<^verbatim>\<open>sharepoint_folder_size.py\<close> the root is resolved by \<^verbatim>\<open>get_drive_item_by_path\<close>, and
  a failure of that request makes \<^verbatim>\<open>analyze_site\<close> return \<^verbatim>\<open>None\<close>.
\<close>

lemma analyze_site_root_failure:
  assumes "get_site_and_drive b site_url = (Some site_id, Some drive_id, drive_name)"
    and "site_id \<noteq> []" and "drive_id \<noteq> []"
    and "failed (b (item_url site_id drive_id
           (if clean_folder_path folder_path \<in> set [[], ''Shared Documents'', ''Documents'']
            then [] else clean_folder_path folder_path)))"
  shows "analyze_site depth b site_url folder_path = Some None"
  using assms
  by (cases "b (item_url site_id drive_id
           (if clean_folder_path folder_path \<in> set [[], ''Shared Documents'', ''Documents'']
            then [] else clean_folder_path folder_path))")
     (auto simp: analyze_site_def falsy_def get_drive_item_by_path_def Let_def)


text \<open>
  A root item that holds only keys the program does not read is a non-empty dict:
  \<^verbatim>\<open>not folder_item\<close> is false of it, and the walk is started on it.
\<close>

lemma analyze_site_unread_keys:
  "\<not> empty_dict unread_keys_only \<and>
   analyze_site 1 bare_root ''https://t.sharepoint.com/sites/x'' [] =
     Some (Some (ReportNode None [] ''Unknown'' 0 0 0 [] []))"
  by code_simp

text \<open>
  C4.  The other two programs do not resolve the root.  When the folder does not exist
  (status 404), or the request raises, \<^verbatim>\<open>analyze_folder\<close> of
  \<^verbatim>\<open>sharepoint_folder_size_v2.py\<close> and \<^verbatim>\<open>analyze_site\<close> of \<^verbatim>\<open>sharepoint_graph_api.py\<close>
  return the empty report with all totals 0, where \<^verbatim>\<open>analyze_site\<close> of
  \<^verbatim>\<open>sharepoint_folder_size.py\<close> returns \<^verbatim>\<open>None\<close> on the same backend.
\<close>

theorem root_failure_failing_input:
  "analyze_folder 1 (sp_serve []) ''https://t.sharepoint.com/sites/x'' ''/sites/x/Missing'' =
     Some (Some (ReportNode None ''/sites/x/Missing'' ''Missing'' 0 0 0 [] [])) \<and>
   analyze_folder 1 (\<lambda>url. SpRaises) ''https://t.sharepoint.com/sites/x'' ''/sites/x/Missing'' =
     Some (Some (ReportNode None ''/sites/x/Missing'' ''Missing'' 0 0 0 [] [])) \<and>
   analyze_site_graph_api 1 missing_root ''https://t.sharepoint.com/sites/x'' ''/sites/x/Missing'' =
     Some (Some (ReportNode None ''Missing'' ''Missing'' 0 0 0 [] [])) \<and>
   analyze_site 1 missing_root ''https://t.sharepoint.com/sites/x'' ''/sites/x/Missing'' =
     Some None"
  by code_simp

section \<open>The exporters\<close>

lemma fold_snoc_rows: "fold (\<lambda>x w. w @ [f x]) xs w = w @ map f xs"
  by (induction xs arbitrary: w) simp_all

lemma fold_write:
  assumes "\<And>s w. s \<in> set ss \<Longrightarrow> g s w = w @ h s"
  shows "fold g ss w = w @ concat (map h ss)"
  using assms by (induction ss arbitrary: w) simp_all

lemma write_folder_data_appends:
  "write_folder_data format_size n writer = writer @ tabular_flatten format_size n"
proof (induction n arbitrary: writer)
  case (ReportNode i p nm ts fc dc fs ss)
  have "fold (write_folder_data format_size) ss w =
          w @ concat (map (tabular_flatten format_size) ss)" for w
    by (rule fold_write) (rule ReportNode.IH)
  then show ?case
    by (simp add: fold_snoc_rows folder_row_def file_row_def del: tabular_flatten.simps)
       (simp add: folder_row_def file_row_def)
qed

text \<open>
  C8.  The tabular export is the header row followed by the pre-order traversal of the
  report: for each folder one row with the folder's own total size, file count and
  folder count, then one row for each of its files with the file's size and 0 in both
  count columns, then the rows of its subfolders, in their order.
\<close>

theorem export_to_csv_is_preorder:
  "export_to_csv format_size result = header_row # tabular_flatten format_size result"
  by (simp add: export_to_csv_def write_folder_data_appends del: tabular_flatten.simps)


theorem export_to_csv_is_preorder_witness:
  "export_to_csv (\<lambda>n. ''-'') demo_report =
     [header_row,
      [Str ''https://x/A'', Str ''A'', Str ''Folder'', Num 335, Str ''-'', Num 4, Num 2],
      [Str ''https://x/f1'', Str ''f1'', Str ''File'', Num 100, Str ''-'', Num 0, Num 0],
      [Str ''https://x/_notes'', Str ''_notes'', Str ''File'', Num 5, Str ''-'', Num 0, Num 0],
      [Str ''https://x/B'', Str ''B'', Str ''Folder'', Num 230, Str ''-'', Num 2, Num 1],
      [Str ''https://x/f2'', Str ''f2'', Str ''File'', Num 200, Str ''-'', Num 0, Num 0],
      [Str ''https://x/C'', Str ''C'', Str ''Folder'', Num 30, Str ''-'', Num 1, Num 0],
      [Str ''https://x/f3'', Str ''f3'', Str ''File'', Num 30, Str ''-'', Num 0, Num 0]]"
proof -
  have "header_row # tabular_flatten (\<lambda>n. ''-'') demo_report =
     [header_row,
      [Str ''https://x/A'', Str ''A'', Str ''Folder'', Num 335, Str ''-'', Num 4, Num 2],
      [Str ''https://x/f1'', Str ''f1'', Str ''File'', Num 100, Str ''-'', Num 0, Num 0],
      [Str ''https://x/_notes'', Str ''_notes'', Str ''File'', Num 5, Str ''-'', Num 0, Num 0],
      [Str ''https://x/B'', Str ''B'', Str ''Folder'', Num 230, Str ''-'', Num 2, Num 1],
      [Str ''https://x/f2'', Str ''f2'', Str ''File'', Num 200, Str ''-'', Num 0, Num 0],
      [Str ''https://x/C'', Str ''C'', Str ''Folder'', Num 30, Str ''-'', Num 1, Num 0],
      [Str ''https://x/f3'', Str ''f3'', Str ''File'', Num 30, Str ''-'', Num 0, Num 0]]"
    by (simp add: demo_report_def folder_row_def file_row_def)
  with export_to_csv_is_preorder [of "\<lambda>n. ''-''" demo_report] show ?thesis by simp
qed


lemma deserialize_file_json: "deserialize_file (file_info_json f) = Some f"
  by (simp add: deserialize_file_def file_info_json_def string_field_def int_field_def)

text \<open>
  C7.  Reading the structured export back gives the tree that was written: the same
  nesting, the same values, the files and the subfolders in the same order.
\<close>

theorem structured_round_trip: "deserialize (export_to_json tree) = Some tree"
proof (induction tree)
  case (ReportNode i p n ts fc dc fs ss)
  have subs: "map (\<lambda>s. deserialize (export_to_json s)) ss = map Some ss"
    using ReportNode.IH by (induction ss) auto
  show ?case
    by (cases i)
       (simp_all add: list_field_def string_field_def int_field_def optional_string_field_def
          those_map_Some comp_def deserialize_file_json subs)
qed


theorem structured_round_trip_witness:
  "deserialize (export_to_json demo_report) = Some demo_report"
  by (rule structured_round_trip)

section \<open>Totality of the walk\<close>










lemma sum_list_map_nonneg:
  "\<forall>x \<in> set xs. (0::int) \<le> f x \<Longrightarrow> 0 \<le> sum_list (map f xs)"
  by (induction xs) auto




lemma items_loop_invariant:
  assumes run: "get_folder_items_loop b u fl ds = Some y"
    and init: "I fl ds"
    and step: "\<And>url fl ds d fl' ds'. I fl ds \<Longrightarrow> b url = Response 200 d \<Longrightarrow>
                 sort_items (entries d) fl ds = (fl', ds') \<Longrightarrow> I fl' ds'"
  shows "I (fst y) (snd y)"
proof -
  have "b = b \<longrightarrow> I fl ds \<longrightarrow> I (fst y) (snd y)"
  proof (rule get_folder_items_loop.raw_induct
      [where P = "\<lambda>b0 u fl ds y. b0 = b \<longrightarrow> I fl ds \<longrightarrow> I (fst y) (snd y)", OF _ run],
      goal_cases)
    case (1 loop b0 u fl ds y)
    show ?case
    proof (intro impI)
      assume b0: "b0 = b" and I: "I fl ds"
      note IH = 1(1)[rule_format, OF _ refl] and body = 1(2)[unfolded b0]
      show "I (fst y) (snd y)"
        using body I step IH
        by (auto simp: entries_def split: if_splits response.splits prod.splits)
    qed
  qed
  with init show ?thesis by simp
qed

lemma get_folder_items_sizes:
  assumes "get_folder_items b site_id drive_id folder_path = Some (fl, ds)"
    and "sizes_nonneg b"
  shows "\<forall>f \<in> set fl. 0 \<le> fi_size (file_info_of f)"
proof -
  from assms(1) have run: "get_folder_items_loop b
      (Some (items_url site_id drive_id (strip_site_prefix folder_path))) [] [] = Some (fl, ds)"
    by (simp add: get_folder_items_def)
  have "\<forall>f \<in> set (fst (fl, ds)). 0 \<le> get_or (item_size f) 0"
  proof (rule items_loop_invariant
      [where I = "\<lambda>fl ds. \<forall>f \<in> set fl. 0 \<le> get_or (item_size f) 0", OF run])
    show "\<forall>f \<in> set []. 0 \<le> get_or (item_size f) 0" by simp
  next
    fix url fl ds d fl' ds'
    assume I: "\<forall>f \<in> set fl. 0 \<le> get_or (item_size f) 0"
      and page: "b url = Response 200 d"
      and sort: "sort_items (entries d) fl ds = (fl', ds')"
    from page assms(2) have "\<forall>it \<in> set (entries d). 0 \<le> get_or (item_size it) 0"
      by (auto simp: sizes_nonneg_def)
    with I sort show "\<forall>f \<in> set fl'. 0 \<le> get_or (item_size f) 0"
      by (auto simp: sort_items_filter)
  qed
  then show ?thesis by (simp add: file_info_of_def)
qed











lemma calculate_folder_size_graph_api_nonneg:
  "sizes_nonneg b \<Longrightarrow>
   calculate_folder_size_graph_api k b site_id drive_id folder_path folder_name = Some node \<Longrightarrow>
   0 \<le> total_size node \<and> 0 \<le> file_count node \<and> 0 \<le> folder_count node"
proof (induction k arbitrary: folder_path folder_name node)
  case 0
  then show ?case by simp
next
  case (Suc k)
  from Suc.prems obtain fl ds subs where
    ch: "get_folder_items b site_id drive_id folder_path = Some (fl, ds)" and
    sub: "map (\<lambda>d. calculate_folder_size_graph_api k b site_id drive_id (name_of d) (Some (name_of d)))
        (filter (\<lambda>d. \<not> system_folder (name_of d)) ds) = map Some subs" and
    node: "total_size node = sum_list (map (\<lambda>f. fi_size (file_info_of f)) fl)
                               + sum_list (map total_size subs)"
          "file_count node = int (length fl) + sum_list (map file_count subs)"
          "folder_count node = int (length subs) + sum_list (map folder_count subs)"
    by (auto simp: calculate_folder_size_graph_api_Some
        simp del: calculate_folder_size_graph_api.simps)
  have subs: "\<forall>s \<in> set subs. 0 \<le> total_size s \<and> 0 \<le> file_count s \<and> 0 \<le> folder_count s"
  proof
    fix s assume "s \<in> set subs"
    from map_Some_nth [OF sub this] obtain d where
      "calculate_folder_size_graph_api k b site_id drive_id (name_of d) (Some (name_of d)) = Some s"
      by blast
    then show "0 \<le> total_size s \<and> 0 \<le> file_count s \<and> 0 \<le> folder_count s"
      by (rule Suc.IH [OF Suc.prems(1)])
  qed
  have "0 \<le> sum_list (map (\<lambda>f. fi_size (file_info_of f)) fl)"
    using get_folder_items_sizes [OF ch Suc.prems(1)] by (rule sum_list_map_nonneg)
  moreover have "0 \<le> sum_list (map total_size subs)" "0 \<le> sum_list (map file_count subs)"
    "0 \<le> sum_list (map folder_count subs)"
    using subs by (auto intro: sum_list_map_nonneg)
  ultimately show ?case using node by simp
qed









lemma sizes_nonneg_serve:
  assumes "list_all (\<lambda>(url, r). case r of Raises \<Rightarrow> True
             | Response status_code data \<Rightarrow>
                 list_all (\<lambda>it. 0 \<le> get_or (item_size it) 0) (entries data)) table"
  shows "sizes_nonneg (serve table)"
  unfolding sizes_nonneg_def
proof (intro allI impI)
  fix url status_code data
  assume r: "serve table url = Response status_code data"
  show "\<forall>it \<in> set (entries data). 0 \<le> get_or (item_size it) 0"
  proof (cases "map_of table url")
    case None
    with r show ?thesis by (auto simp: serve_def entries_def mk_page_def get_or_def)
  next
    case (Some r')
    with r have "(url, Response status_code data) \<in> set table"
      by (auto simp: serve_def dest: map_of_SomeD)
    with assms show ?thesis by (auto simp: list_all_iff)
  qed
qed



lemma sizes_nonneg_graph_demo: "sizes_nonneg graph_demo"
  unfolding graph_demo_def by (rule sizes_nonneg_serve) code_simp








text \<open>
  On this hierarchy no depth of recursion completes the walk by path: the call for \<open>A\<close>
  always asks for \<open>A\<close> again.
\<close>

lemma selfnest_below_exceeds_every_depth:
  "calculate_folder_size_graph_api depth selfnest ''s'' ''d'' ''A'' folder_name = None"
proof (induction depth arbitrary: folder_name)
  case 0
  show ?case by simp
next
  case (Suc depth)
  have g: "get_folder_items selfnest ''s'' ''d'' ''A'' =
             Some ([mk_file ''g'' 7], [mk_folder ''aa'' ''A''])"
    by code_simp
  have n: "get_or (item_name (mk_folder ''aa'' ''A'')) [] = ''A''" by code_simp
  have s: "\<not> (startswith ''A'' ''_'' \<or> ''A'' = ''Forms'')" by code_simp
  from Suc [of "Some ''A''"] s show ?case by (simp add: g n Let_def del: startswith_def)
qed

lemma selfnest_exceeds_every_depth:
  "calculate_folder_size_graph_api depth selfnest ''s'' ''d'' [] None = None"
proof (cases depth)
  case 0
  then show ?thesis by simp
next
  case (Suc k)
  have g: "get_folder_items selfnest ''s'' ''d'' [] = Some ([], [mk_folder ''a'' ''A''])"
    by code_simp
  have n: "get_or (item_name (mk_folder ''a'' ''A'')) [] = ''A''" by code_simp
  have s: "\<not> (startswith ''A'' ''_'' \<or> ''A'' = ''Forms'')" by code_simp
  from selfnest_below_exceeds_every_depth [of k "Some ''A''"] s Suc
  show ?thesis by (simp add: g n Let_def)
qed




end
